theory Spec2Isabelle
  imports Main
begin

section \<open>Outcomes of a call\<close>

text \<open>
  A call of the C++ code either returns, or leaves by an exception, or never comes
  back: a failed \<open>assert\<close> aborts the process and undefined behaviour (reading raw
  memory, destroying what is not alive, freeing what is not allocated, pointer
  arithmetic outside an allocation) has no defined continuation. An exception carries
  the state in which it leaves, since the caller can observe it.
\<close>

datatype exn = BadAlloc | ElementThrow

datatype fault = AssertionFailed | UndefinedBehaviour

datatype ('r, 's) outcome = Return 'r 's | Throw exn 's | Fault fault

definition and_then :: "('r, 's) outcome \<Rightarrow> ('r \<Rightarrow> 's \<Rightarrow> ('q, 's) outcome) \<Rightarrow> ('q, 's) outcome" where
  "and_then m f = (case m of Return r s \<Rightarrow> f r s | Throw e s \<Rightarrow> Throw e s | Fault x \<Rightarrow> Fault x)"

text \<open>
  \<open>on_throw m cleanup\<close> is \<open>try { m } catch (...) { cleanup; throw; }\<close>, and also the
  unwinding of a scope whose local object has the destructor \<open>cleanup\<close>.
\<close>

definition on_throw :: "('r, 's) outcome \<Rightarrow> ('s \<Rightarrow> (unit, 's) outcome) \<Rightarrow> ('r, 's) outcome" where
  "on_throw m cleanup =
     (case m of
        Throw e s \<Rightarrow>
          (case cleanup s of
             Return u s' \<Rightarrow> Throw e s'
           | Throw e' s' \<Rightarrow> Throw e' s'
           | Fault x \<Rightarrow> Fault x)
      | Return r s \<Rightarrow> Return r s
      | Fault x \<Rightarrow> Fault x)"

section \<open>The element type\<close>

text \<open>
  What the container needs to know of its element type \<open>T\<close>: the two traits
  \<open>CopyData\<close> and \<open>Erase\<close> branch on, the value a value-initialisation gives
  (\<open>None\<close> when \<open>T()\<close> throws), which values make each of the four copy and move
  operations throw, the state a move leaves its source in, and \<open>sizeof(T)\<close>, which is
  at least one. A copy yields an equal value and leaves its source alone.
\<close>

record 'a traits =
  size_of :: nat
  nothrow_move_constructible :: bool
  copy_constructible :: bool
  value_init :: "'a option"
  copy_ctor_throws :: "'a \<Rightarrow> bool"
  copy_asg_throws :: "'a \<Rightarrow> bool"
  move_ctor_throws :: "'a \<Rightarrow> bool"
  move_asg_throws :: "'a \<Rightarrow> bool"
  moved_from :: "'a \<Rightarrow> 'a"

section \<open>Raw storage\<close>

text \<open>
  An address is a natural number, \<open>0\<close> the null pointer. The free store maps the
  address of each allocation to its slots; a slot is \<open>None\<close> while it is raw memory
  and \<open>Some v\<close> while an element with value \<open>v\<close> is alive in it. \<open>brk\<close> is the last
  address handed out (addresses are not reused), \<open>avail\<close> the number of slots
  \<open>operator new\<close> can still provide, and \<open>leaked\<close> counts the elements whose
  destructor can no longer run: alive in storage that was released, or overwritten by
  a construction in their slot.

  \<open>size_t\<close> is \<open>nat\<close>. Sums and doublings of sizes are not wrapped; the byte
  count of an allocation and a subtraction that would pass below zero are reduced
  modulo \<open>2 ^ 64\<close>, written out at each place the code can reach them.
\<close>

type_synonym addr = nat

type_synonym ptr = "addr \<times> nat"

record 'a heap =
  mem :: "addr \<Rightarrow> 'a option list option"
  brk :: addr
  avail :: nat
  leaked :: nat

definition block :: "'a heap \<Rightarrow> addr \<Rightarrow> 'a option list option" where
  "block h a = (if a = 0 \<or> brk h < a then None else mem h a)"

definition slot :: "'a heap \<Rightarrow> ptr \<Rightarrow> 'a option option" where
  "slot h p =
     (case block h (fst p) of
        None \<Rightarrow> None
      | Some b \<Rightarrow> if snd p < length b then Some (b ! snd p) else None)"

definition poke :: "'a heap \<Rightarrow> ptr \<Rightarrow> 'a option \<Rightarrow> 'a heap" where
  "poke h p x =
     (case block h (fst p) of
        None \<Rightarrow> h
      | Some b \<Rightarrow> h\<lparr>mem := (mem h)(fst p := Some (b[snd p := x]))\<rparr>)"

definition ptr_add :: "ptr \<Rightarrow> nat \<Rightarrow> ptr" where
  "ptr_add p k = (fst p, snd p + k)"

text \<open>\<open>p - k\<close> on a pointer; before the start of the allocation it is undefined.\<close>

definition ptr_sub :: "ptr \<Rightarrow> nat \<Rightarrow> ptr option" where
  "ptr_sub p k = (if k \<le> snd p then Some (fst p, snd p - k) else None)"

text \<open>\<open>p - q\<close> on two pointers, as \<open>size_t\<close>; defined within one allocation.\<close>

definition ptr_diff :: "ptr \<Rightarrow> ptr \<Rightarrow> nat option" where
  "ptr_diff p q = (if fst p = fst q \<and> snd q \<le> snd p then Some (snd p - snd q) else None)"

text \<open>
  \<open>operator new(bytes)\<close> for storage of elements of type \<open>T\<close>: a new allocation with
  the slots that fit into \<open>bytes\<close> bytes, none for a request of zero bytes, or
  \<open>std::bad_alloc\<close>.
\<close>

definition operator_new :: "'a traits \<Rightarrow> nat \<Rightarrow> 'a heap \<Rightarrow> (addr, 'a heap) outcome" where
  "operator_new T bytes h =
     (if avail h < bytes div size_of T then Throw BadAlloc h
      else Return (Suc (brk h))
             (h\<lparr>mem := (mem h)(Suc (brk h) := Some (replicate (bytes div size_of T) None)),
                brk := Suc (brk h),
                avail := avail h - bytes div size_of T\<rparr>))"

text \<open>
  \<open>static T* Allocate(size_t n)\<close> and \<open>static void Deallocate(T* buf)\<close>. The product
  \<open>n * sizeof(T)\<close> is formed in \<open>size_t\<close> (64 bits) and is not checked, so it wraps.
\<close>

definition Allocate :: "'a traits \<Rightarrow> nat \<Rightarrow> 'a heap \<Rightarrow> (addr, 'a heap) outcome" where
  "Allocate T n h =
     (if n \<noteq> 0 then operator_new T ((n * size_of T) mod 2 ^ 64) h else Return 0 h)"

text \<open>The number of slots the allocation that \<open>Allocate(n)\<close> asks for holds.\<close>

definition slots_granted :: "'a traits \<Rightarrow> nat \<Rightarrow> nat" where
  "slots_granted T n = ((n * size_of T) mod 2 ^ 64) div size_of T"

definition Deallocate :: "addr \<Rightarrow> 'a heap \<Rightarrow> (unit, 'a heap) outcome" where
  "Deallocate buf h =
     (if buf = 0 then Return () h
      else (case block h buf of
              None \<Rightarrow> Fault UndefinedBehaviour
            | Some b \<Rightarrow>
                Return ()
                  (h\<lparr>mem := (mem h)(buf := None),
                     avail := avail h + length b,
                     leaked := leaked h + length (filter (\<lambda>s. s \<noteq> None) b)\<rparr>)))"

subsection \<open>Operations on one element\<close>

text \<open>Placement-new of an already computed value, \<open>std::destroy_at\<close>, and a read.\<close>

definition construct_at :: "ptr \<Rightarrow> 'a \<Rightarrow> 'a heap \<Rightarrow> (unit, 'a heap) outcome" where
  "construct_at p v h =
     (case slot h p of
        None \<Rightarrow> Fault UndefinedBehaviour
      | Some None \<Rightarrow> Return () (poke h p (Some v))
      | Some (Some old) \<Rightarrow> Return () ((poke h p (Some v))\<lparr>leaked := Suc (leaked h)\<rparr>))"

definition destroy_at :: "ptr \<Rightarrow> 'a heap \<Rightarrow> (unit, 'a heap) outcome" where
  "destroy_at p h =
     (case slot h p of
        Some (Some v) \<Rightarrow> Return () (poke h p None)
      | Some None \<Rightarrow> Fault UndefinedBehaviour
      | None \<Rightarrow> Fault UndefinedBehaviour)"

definition deref :: "'a heap \<Rightarrow> ptr \<Rightarrow> 'a option" where
  "deref h p = (case slot h p of Some (Some v) \<Rightarrow> Some v | Some None \<Rightarrow> None | None \<Rightarrow> None)"

text \<open>
  An assignment stores the value in the slot whatever the slot held (\<open>Erase\<close> assigns
  to the slot it has just destroyed); outside an allocation it is undefined.
\<close>

definition store :: "ptr \<Rightarrow> 'a \<Rightarrow> 'a heap \<Rightarrow> (unit, 'a heap) outcome" where
  "store p v h =
     (case slot h p of
        None \<Rightarrow> Fault UndefinedBehaviour
      | Some old \<Rightarrow> Return () (poke h p (Some v)))"

text \<open>\<open>new (dst) T()\<close>, \<open>new (dst) T(*src)\<close>, \<open>new (dst) T(std::move(*src))\<close>,
  \<open>*dst = *src\<close> and \<open>*dst = std::move(*src)\<close>.\<close>

definition value_construct :: "'a traits \<Rightarrow> ptr \<Rightarrow> 'a heap \<Rightarrow> (unit, 'a heap) outcome" where
  "value_construct T dst h =
     (case value_init T of
        None \<Rightarrow> Throw ElementThrow h
      | Some d \<Rightarrow> construct_at dst d h)"

definition copy_construct :: "'a traits \<Rightarrow> ptr \<Rightarrow> ptr \<Rightarrow> 'a heap \<Rightarrow> (unit, 'a heap) outcome" where
  "copy_construct T src dst h =
     (case deref h src of
        None \<Rightarrow> Fault UndefinedBehaviour
      | Some v \<Rightarrow> if copy_ctor_throws T v then Throw ElementThrow h else construct_at dst v h)"

definition move_construct :: "'a traits \<Rightarrow> ptr \<Rightarrow> ptr \<Rightarrow> 'a heap \<Rightarrow> (unit, 'a heap) outcome" where
  "move_construct T src dst h =
     (case deref h src of
        None \<Rightarrow> Fault UndefinedBehaviour
      | Some v \<Rightarrow>
          if \<not> nothrow_move_constructible T \<and> move_ctor_throws T v then Throw ElementThrow h
          else and_then (construct_at dst v h) (\<lambda>u h1. store src (moved_from T v) h1))"

definition copy_assign :: "'a traits \<Rightarrow> ptr \<Rightarrow> ptr \<Rightarrow> 'a heap \<Rightarrow> (unit, 'a heap) outcome" where
  "copy_assign T src dst h =
     (case deref h src of
        None \<Rightarrow> Fault UndefinedBehaviour
      | Some v \<Rightarrow> if copy_asg_throws T v then Throw ElementThrow h else store dst v h)"

definition move_assign :: "'a traits \<Rightarrow> ptr \<Rightarrow> ptr \<Rightarrow> 'a heap \<Rightarrow> (unit, 'a heap) outcome" where
  "move_assign T src dst h =
     (case deref h src of
        None \<Rightarrow> Fault UndefinedBehaviour
      | Some v \<Rightarrow>
          if move_asg_throws T v then Throw ElementThrow h
          else and_then (store dst v h) (\<lambda>u h1. store src (moved_from T v) h1))"

subsection \<open>The standard algorithms the container calls\<close>

text \<open>
  The \<open>std::uninitialized_*_n\<close> algorithms destroy what they have constructed when a
  construction throws, and rethrow.
\<close>

fun destroy_n :: "ptr \<Rightarrow> nat \<Rightarrow> 'a heap \<Rightarrow> (unit, 'a heap) outcome" where
  "destroy_n p 0 h = Return () h"
| "destroy_n p (Suc n) h = and_then (destroy_at p h) (\<lambda>u h1. destroy_n (ptr_add p 1) n h1)"

fun uninitialized_value_construct_n :: "'a traits \<Rightarrow> ptr \<Rightarrow> nat \<Rightarrow> 'a heap \<Rightarrow> (unit, 'a heap) outcome" where
  "uninitialized_value_construct_n T dst 0 h = Return () h"
| "uninitialized_value_construct_n T dst (Suc n) h =
     and_then (value_construct T dst h)
       (\<lambda>u h1. on_throw (uninitialized_value_construct_n T (ptr_add dst 1) n h1) (destroy_at dst))"

fun uninitialized_copy_n :: "'a traits \<Rightarrow> ptr \<Rightarrow> nat \<Rightarrow> ptr \<Rightarrow> 'a heap \<Rightarrow> (unit, 'a heap) outcome" where
  "uninitialized_copy_n T src 0 dst h = Return () h"
| "uninitialized_copy_n T src (Suc n) dst h =
     and_then (copy_construct T src dst h)
       (\<lambda>u h1. on_throw (uninitialized_copy_n T (ptr_add src 1) n (ptr_add dst 1) h1) (destroy_at dst))"

fun uninitialized_move_n :: "'a traits \<Rightarrow> ptr \<Rightarrow> nat \<Rightarrow> ptr \<Rightarrow> 'a heap \<Rightarrow> (unit, 'a heap) outcome" where
  "uninitialized_move_n T src 0 dst h = Return () h"
| "uninitialized_move_n T src (Suc n) dst h =
     and_then (move_construct T src dst h)
       (\<lambda>u h1. on_throw (uninitialized_move_n T (ptr_add src 1) n (ptr_add dst 1) h1) (destroy_at dst))"

text \<open>\<open>std::copy_n(src, n, dst)\<close>: \<open>n\<close> copy-assignments, front to back.\<close>

fun copy_n :: "'a traits \<Rightarrow> ptr \<Rightarrow> nat \<Rightarrow> ptr \<Rightarrow> 'a heap \<Rightarrow> (unit, 'a heap) outcome" where
  "copy_n T src 0 dst h = Return () h"
| "copy_n T src (Suc n) dst h =
     and_then (copy_assign T src dst h)
       (\<lambda>u h1. copy_n T (ptr_add src 1) n (ptr_add dst 1) h1)"

fun move_n :: "'a traits \<Rightarrow> ptr \<Rightarrow> nat \<Rightarrow> ptr \<Rightarrow> 'a heap \<Rightarrow> (unit, 'a heap) outcome" where
  "move_n T src 0 dst h = Return () h"
| "move_n T src (Suc n) dst h =
     and_then (move_assign T src dst h)
       (\<lambda>u h1. move_n T (ptr_add src 1) n (ptr_add dst 1) h1)"

text \<open>
  \<open>std::copy(first, last, d_first)\<close> and \<open>std::move(first, last, d_first)\<close>; a range
  whose end is before its start, or in another allocation, is undefined.
\<close>

definition std_copy :: "'a traits \<Rightarrow> ptr \<Rightarrow> ptr \<Rightarrow> ptr \<Rightarrow> 'a heap \<Rightarrow> (unit, 'a heap) outcome" where
  "std_copy T first lim d_first h =
     (case ptr_diff lim first of
        None \<Rightarrow> Fault UndefinedBehaviour
      | Some n \<Rightarrow> copy_n T first n d_first h)"

definition std_move :: "'a traits \<Rightarrow> ptr \<Rightarrow> ptr \<Rightarrow> ptr \<Rightarrow> 'a heap \<Rightarrow> (unit, 'a heap) outcome" where
  "std_move T first lim d_first h =
     (case ptr_diff lim first of
        None \<Rightarrow> Fault UndefinedBehaviour
      | Some n \<Rightarrow> move_n T first n d_first h)"

text \<open>
  \<open>std::move_backward(first, last, d_last)\<close>: move-assignments from the last element of
  the range down to the first, into the range that ends at \<open>d_last\<close>.
\<close>

fun move_backward_n :: "'a traits \<Rightarrow> ptr \<Rightarrow> nat \<Rightarrow> ptr \<Rightarrow> 'a heap \<Rightarrow> (unit, 'a heap) outcome" where
  "move_backward_n T first 0 d_last h = Return () h"
| "move_backward_n T first (Suc n) d_last h =
     (case ptr_sub d_last 1 of
        None \<Rightarrow> Fault UndefinedBehaviour
      | Some d \<Rightarrow>
          and_then (move_assign T (ptr_add first n) d h)
            (\<lambda>u h1. move_backward_n T first n d h1))"

definition move_backward :: "'a traits \<Rightarrow> ptr \<Rightarrow> ptr \<Rightarrow> ptr \<Rightarrow> 'a heap \<Rightarrow> (unit, 'a heap) outcome" where
  "move_backward T first lim d_last h =
     (case ptr_diff lim first of
        None \<Rightarrow> Fault UndefinedBehaviour
      | Some n \<Rightarrow> move_backward_n T first n d_last h)"

section \<open>RawMemory\<close>

text \<open>
  The members \<open>buffer_\<close> and \<open>capacity_\<close>, and \<open>data_\<close> and \<open>size_\<close> of \<open>Vector\<close>
  below, carry the suffix \<open>_m\<close>: a name cannot end in an underscore here.
\<close>

record RawMemory =
  buffer_m :: addr
  capacity_m :: nat

text \<open>The default member initialisers: \<open>buffer_ = nullptr\<close>, \<open>capacity_ = 0\<close>.\<close>

definition RawMemory_default :: RawMemory where
  "RawMemory_default = \<lparr>buffer_m = 0, capacity_m = 0\<rparr>"

text \<open>
  \<open>RawMemory(RawMemory&& other)\<close> assigns \<open>std::move\<close> of a pointer and of a
  \<open>size_t\<close>, which copies them. The result is the new object and \<open>other\<close> afterwards.
\<close>

definition RawMemory_move_ctor :: "RawMemory \<Rightarrow> RawMemory \<times> RawMemory" where
  "RawMemory_move_ctor other =
     (\<lparr>buffer_m = buffer_m other, capacity_m = capacity_m other\<rparr>, other)"

text \<open>
  \<open>operator=(RawMemory&& rhs)\<close> and \<open>Swap\<close> exchange both members. The result is
  \<open>*this\<close> and the other object afterwards.
\<close>

definition RawMemory_move_assign :: "RawMemory \<Rightarrow> RawMemory \<Rightarrow> RawMemory \<times> RawMemory" where
  "RawMemory_move_assign this rhs =
     (\<lparr>buffer_m = buffer_m rhs, capacity_m = capacity_m rhs\<rparr>,
      \<lparr>buffer_m = buffer_m this, capacity_m = capacity_m this\<rparr>)"

definition RawMemory_Swap :: "RawMemory \<Rightarrow> RawMemory \<Rightarrow> RawMemory \<times> RawMemory" where
  "RawMemory_Swap this other =
     (\<lparr>buffer_m = buffer_m other, capacity_m = capacity_m other\<rparr>,
      \<lparr>buffer_m = buffer_m this, capacity_m = capacity_m this\<rparr>)"

text \<open>\<open>explicit RawMemory(size_t capacity)\<close>, for elements of type \<open>T\<close>.\<close>

definition RawMemory_new :: "'a traits \<Rightarrow> nat \<Rightarrow> 'a heap \<Rightarrow> (RawMemory, 'a heap) outcome" where
  "RawMemory_new T capacity h =
     and_then (Allocate T capacity h) (\<lambda>a h1. Return \<lparr>buffer_m = a, capacity_m = capacity\<rparr> h1)"

definition RawMemory_dtor :: "RawMemory \<Rightarrow> 'a heap \<Rightarrow> (unit, 'a heap) outcome" where
  "RawMemory_dtor m h = Deallocate (buffer_m m) h"

text \<open>\<open>operator+\<close> and \<open>operator[]\<close> with their assertions; \<open>None\<close> is the failed assertion.\<close>

definition RawMemory_plus :: "RawMemory \<Rightarrow> nat \<Rightarrow> ptr option" where
  "RawMemory_plus m offset = (if offset \<le> capacity_m m then Some (buffer_m m, offset) else None)"

definition RawMemory_at :: "RawMemory \<Rightarrow> nat \<Rightarrow> ptr option" where
  "RawMemory_at m index = (if index < capacity_m m then Some (buffer_m m, index) else None)"

definition GetAddress :: "RawMemory \<Rightarrow> ptr" where
  "GetAddress m = (buffer_m m, 0)"

definition Capacity :: "RawMemory \<Rightarrow> nat" where
  "Capacity m = capacity_m m"

section \<open>Vector\<close>

record Vector =
  data_m :: RawMemory
  size_m :: nat

text \<open>
  A member function runs on \<open>*this\<close> and the free store. \<open>on_heap\<close> runs an operation
  of the free store inside a member function; \<open>asserted\<close> and \<open>defined\<close> turn a failed
  assertion and an undefined pointer operation into the fault; \<open>constructed\<close> is the
  evaluation of a constructor call whose result is given.
\<close>

definition on_heap :: "('a heap \<Rightarrow> ('r, 'a heap) outcome) \<Rightarrow> 'v \<times> 'a heap \<Rightarrow> ('r, 'v \<times> 'a heap) outcome" where
  "on_heap f s =
     (case f (snd s) of
        Return r h \<Rightarrow> Return r (fst s, h)
      | Throw e h \<Rightarrow> Throw e (fst s, h)
      | Fault x \<Rightarrow> Fault x)"

definition asserted :: "'x option \<Rightarrow> 's \<Rightarrow> ('x, 's) outcome" where
  "asserted x s = (case x of None \<Rightarrow> Fault AssertionFailed | Some y \<Rightarrow> Return y s)"

definition defined :: "'x option \<Rightarrow> 's \<Rightarrow> ('x, 's) outcome" where
  "defined x s = (case x of None \<Rightarrow> Fault UndefinedBehaviour | Some y \<Rightarrow> Return y s)"

definition constructed :: "'x option \<Rightarrow> 's \<Rightarrow> ('x, 's) outcome" where
  "constructed x s = (case x of None \<Rightarrow> Throw ElementThrow s | Some y \<Rightarrow> Return y s)"

text \<open>\<open>a - b\<close> in \<open>size_t\<close> (64 bits), for the subtractions no branch guards.\<close>

definition size_t_sub :: "nat \<Rightarrow> nat \<Rightarrow> nat" where
  "size_t_sub a b = (if b \<le> a then a - b else a + 2 ^ 64 - b)"

definition Vector_default :: Vector where
  "Vector_default = \<lparr>data_m = RawMemory_default, size_m = 0\<rparr>"

text \<open>
  \<open>explicit Vector(size_t size)\<close> and \<open>explicit Vector(const Vector& other)\<close>. When the
  body throws, the member \<open>data_\<close> is destroyed again.
\<close>

definition Vector_sized :: "'a traits \<Rightarrow> nat \<Rightarrow> 'a heap \<Rightarrow> (Vector, 'a heap) outcome" where
  "Vector_sized T n h =
     and_then (RawMemory_new T n h) (\<lambda>d h1.
     and_then (on_throw (uninitialized_value_construct_n T (GetAddress d) n h1) (RawMemory_dtor d))
       (\<lambda>u h2. Return \<lparr>data_m = d, size_m = n\<rparr> h2))"

definition Vector_copy :: "'a traits \<Rightarrow> Vector \<Rightarrow> 'a heap \<Rightarrow> (Vector, 'a heap) outcome" where
  "Vector_copy T other h =
     and_then (RawMemory_new T (size_m other) h) (\<lambda>d h1.
     and_then (on_throw (uninitialized_copy_n T (GetAddress (data_m other)) (size_m other) (GetAddress d) h1)
                 (RawMemory_dtor d))
       (\<lambda>u h2. Return \<lparr>data_m = d, size_m = size_m other\<rparr> h2))"

text \<open>
  \<open>Vector(Vector&& other)\<close>: the members start from their default initialisers, then
  \<open>data_\<close> is move-assigned. The result is the new vector and \<open>other\<close> afterwards.
\<close>

definition Vector_move :: "Vector \<Rightarrow> Vector \<times> Vector" where
  "Vector_move other =
     (case RawMemory_move_assign (data_m Vector_default) (data_m other) of
        (d, od) \<Rightarrow> (\<lparr>data_m = d, size_m = size_m other\<rparr>, \<lparr>data_m = od, size_m = 0\<rparr>))"

definition Vector_dtor :: "Vector \<Rightarrow> 'a heap \<Rightarrow> (unit, 'a heap) outcome" where
  "Vector_dtor v h =
     and_then (destroy_n (GetAddress (data_m v)) (size_m v) h) (\<lambda>u h1. RawMemory_dtor (data_m v) h1)"

definition Vector_begin :: "Vector \<Rightarrow> ptr" where
  "Vector_begin v = GetAddress (data_m v)"

definition Vector_end :: "Vector \<Rightarrow> ptr" where
  "Vector_end v = ptr_add (GetAddress (data_m v)) (size_m v)"

definition Size :: "Vector \<Rightarrow> nat" where
  "Size v = size_m v"

definition CopyData :: "'a traits \<Rightarrow> ptr \<Rightarrow> nat \<Rightarrow> ptr \<Rightarrow> 'a heap \<Rightarrow> (unit, 'a heap) outcome" where
  "CopyData T src count dst h =
     (if nothrow_move_constructible T \<or> \<not> copy_constructible T
      then uninitialized_move_n T src count dst h
      else uninitialized_copy_n T src count dst h)"

text \<open>\<open>data_[offset] = std::forward<T>(temp_element)\<close>, from a local value.\<close>

definition move_assign_from :: "'a traits \<Rightarrow> 'a \<Rightarrow> ptr \<Rightarrow> 'a heap \<Rightarrow> (unit, 'a heap) outcome" where
  "move_assign_from T x dst h = (if move_asg_throws T x then Throw ElementThrow h else store dst x h)"

text \<open>
  \<open>Emplace(pos, args...)\<close>. The argument \<open>args\<close> is what \<open>T(std::forward<Args>(args)...)\<close>
  evaluates to: the new element's value, or \<open>None\<close> when that constructor throws.
  The local \<open>new_data\<close> is destroyed when its block is left, by an exception too.
\<close>

definition Emplace :: "'a traits \<Rightarrow> ptr \<Rightarrow> 'a option \<Rightarrow> Vector \<times> 'a heap \<Rightarrow> (ptr, Vector \<times> 'a heap) outcome" where
  "Emplace T pos args s =
     (let v = fst s in
      and_then (defined (ptr_diff pos (Vector_begin v)) s) (\<lambda>offset s.
      and_then
        (if size_m v < Capacity (data_m v) then
           (if pos = Vector_end v then
              and_then (asserted (RawMemory_plus (data_m v) offset) s) (\<lambda>p s.
              and_then (constructed args s) (\<lambda>x s.
                on_heap (construct_at p x) s))
            else
              and_then (constructed args s) (\<lambda>temp_element s.
              and_then (asserted (RawMemory_plus (data_m v) (size_m v)) s) (\<lambda>p_new s.
              and_then (asserted (RawMemory_at (data_m v) (size_t_sub (size_m v) 1)) s) (\<lambda>p_last s.
              and_then (on_heap (move_construct T p_last p_new) s) (\<lambda>u s.
              and_then (defined (ptr_sub (Vector_end v) 1) s) (\<lambda>lim s.
              and_then (asserted (RawMemory_at (data_m v) (size_m v)) s) (\<lambda>d_last s.
              and_then (on_heap (move_backward T (ptr_add (Vector_begin v) offset) lim d_last) s) (\<lambda>u s.
              and_then (asserted (RawMemory_at (data_m v) offset) s) (\<lambda>p s.
                on_heap (move_assign_from T temp_element p) s)))))))))
         else
           and_then (on_heap (RawMemory_new T (if size_m v = 0 then 1 else size_m v * 2)) s) (\<lambda>new_data s.
           and_then
             (on_throw
                (and_then (asserted (RawMemory_plus new_data offset) s) (\<lambda>p s.
                 and_then (constructed args s) (\<lambda>x s.
                 and_then (on_heap (construct_at p x) s) (\<lambda>u s.
                 and_then (on_throw
                             (on_heap (CopyData T (Vector_begin v) offset (GetAddress new_data)) s)
                             (on_heap (destroy_at p))) (\<lambda>u s.
                 and_then (on_throw
                             (on_heap (CopyData T (ptr_add (Vector_begin v) offset)
                                         (size_t_sub (size_m v) offset)
                                         (ptr_add (ptr_add (GetAddress new_data) offset) 1)) s)
                             (on_heap (destroy_n (GetAddress new_data) (offset + 1)))) (\<lambda>u s.
                   on_heap (destroy_n (GetAddress (data_m v)) (size_m v)) s))))))
                (on_heap (RawMemory_dtor new_data)))
             (\<lambda>u s.
                (case RawMemory_Swap (data_m v) new_data of
                   (d, old_data) \<Rightarrow>
                     and_then (on_heap (RawMemory_dtor old_data) s) (\<lambda>u s.
                       Return () (\<lparr>data_m = d, size_m = size_m v\<rparr>, snd s))))))
        (\<lambda>u s.
           (let v1 = \<lparr>data_m = data_m (fst s), size_m = size_m (fst s) + 1\<rparr> in
            asserted (RawMemory_at (data_m v1) offset) (v1, snd s)))))"

text \<open>\<open>Erase(pos)\<close>.\<close>

definition Erase :: "'a traits \<Rightarrow> ptr \<Rightarrow> Vector \<times> 'a heap \<Rightarrow> (ptr, Vector \<times> 'a heap) outcome" where
  "Erase T pos s =
     (let v = fst s in
      and_then (on_heap (destroy_at pos) s) (\<lambda>u s.
      and_then (defined (ptr_diff pos (Vector_begin v)) s) (\<lambda>offset s.
      and_then
        (if nothrow_move_constructible T \<or> \<not> copy_constructible T then
           and_then (asserted (RawMemory_at (data_m v) (offset + 1)) s) (\<lambda>first s.
           and_then (asserted (RawMemory_at (data_m v) offset) s) (\<lambda>d_first s.
             on_heap (std_move T first (Vector_end v) d_first) s))
         else
           and_then (asserted (RawMemory_at (data_m v) offset) s) (\<lambda>d_first s.
             on_heap (std_copy T (ptr_add pos 1) (Vector_end v) d_first) s))
        (\<lambda>u s.
           (let v1 = \<lparr>data_m = data_m (fst s), size_m = size_t_sub (size_m (fst s)) 1\<rparr> in
            asserted (RawMemory_at (data_m v1) offset) (v1, snd s))))))"

text \<open>
  \<open>Insert(pos, const T&)\<close> copy-constructs the element from \<open>value\<close>, \<open>Insert(pos, T&&)\<close>
  move-constructs it.
\<close>

definition copy_of :: "'a traits \<Rightarrow> 'a \<Rightarrow> 'a option" where
  "copy_of T x = (if copy_ctor_throws T x then None else Some x)"

definition move_of :: "'a traits \<Rightarrow> 'a \<Rightarrow> 'a option" where
  "move_of T x = (if \<not> nothrow_move_constructible T \<and> move_ctor_throws T x then None else Some x)"

definition Insert :: "'a traits \<Rightarrow> ptr \<Rightarrow> 'a \<Rightarrow> Vector \<times> 'a heap \<Rightarrow> (ptr, Vector \<times> 'a heap) outcome" where
  "Insert T pos x s = Emplace T pos (copy_of T x) s"

definition Insert_rvalue :: "'a traits \<Rightarrow> ptr \<Rightarrow> 'a \<Rightarrow> Vector \<times> 'a heap \<Rightarrow> (ptr, Vector \<times> 'a heap) outcome" where
  "Insert_rvalue T pos x s = Emplace T pos (move_of T x) s"

text \<open>\<open>Reserve(new_capacity)\<close> and \<open>Resize(new_size)\<close>.\<close>

definition Reserve :: "'a traits \<Rightarrow> nat \<Rightarrow> Vector \<times> 'a heap \<Rightarrow> (unit, Vector \<times> 'a heap) outcome" where
  "Reserve T new_capacity s =
     (let v = fst s in
      if new_capacity \<le> Capacity (data_m v) then Return () s
      else
        and_then (on_heap (RawMemory_new T new_capacity) s) (\<lambda>new_data s.
        and_then
          (on_throw
             (and_then (on_heap (CopyData T (GetAddress (data_m v)) (size_m v) (GetAddress new_data)) s) (\<lambda>u s.
                on_heap (destroy_n (GetAddress (data_m v)) (size_m v)) s))
             (on_heap (RawMemory_dtor new_data)))
          (\<lambda>u s.
             (case RawMemory_Swap (data_m v) new_data of
                (d, old_data) \<Rightarrow>
                  and_then (on_heap (RawMemory_dtor old_data) s) (\<lambda>u s.
                    Return () (\<lparr>data_m = d, size_m = size_m v\<rparr>, snd s))))))"

definition Resize :: "'a traits \<Rightarrow> nat \<Rightarrow> Vector \<times> 'a heap \<Rightarrow> (unit, Vector \<times> 'a heap) outcome" where
  "Resize T new_size s =
     (if new_size \<noteq> size_m (fst s) then
        and_then
          (if new_size < size_m (fst s) then
             on_heap (destroy_n (ptr_add (GetAddress (data_m (fst s))) new_size)
                        (size_m (fst s) - new_size)) s
           else
             and_then (Reserve T new_size s) (\<lambda>u s.
               on_heap (uninitialized_value_construct_n T
                          (ptr_add (GetAddress (data_m (fst s))) (size_m (fst s)))
                          (new_size - size_m (fst s))) s))
          (\<lambda>u s. Return () (\<lparr>data_m = data_m (fst s), size_m = new_size\<rparr>, snd s))
      else Return () s)"

text \<open>
  \<open>EmplaceBack\<close> is \<open>Emplace\<close> at \<open>end()\<close>. \<open>PushBack(const T&)\<close> passes
  \<open>std::move\<close> of a const reference, from which the copy constructor builds the
  element, as the forwarding overload does from an lvalue; from an rvalue the
  forwarding overload move-constructs.
\<close>

definition EmplaceBack :: "'a traits \<Rightarrow> 'a option \<Rightarrow> Vector \<times> 'a heap \<Rightarrow> (ptr, Vector \<times> 'a heap) outcome" where
  "EmplaceBack T args s = Emplace T (Vector_end (fst s)) args s"

definition PushBack :: "'a traits \<Rightarrow> 'a \<Rightarrow> Vector \<times> 'a heap \<Rightarrow> (unit, Vector \<times> 'a heap) outcome" where
  "PushBack T x s = and_then (EmplaceBack T (copy_of T x) s) (\<lambda>r s. Return () s)"

definition PushBack_rvalue :: "'a traits \<Rightarrow> 'a \<Rightarrow> Vector \<times> 'a heap \<Rightarrow> (unit, Vector \<times> 'a heap) outcome" where
  "PushBack_rvalue T x s = and_then (EmplaceBack T (move_of T x) s) (\<lambda>r s. Return () s)"

text \<open>\<open>PopBack()\<close>: no check that the vector holds an element.\<close>

definition PopBack :: "Vector \<times> 'a heap \<Rightarrow> (unit, Vector \<times> 'a heap) outcome" where
  "PopBack s =
     (let v = fst s in
      and_then (defined (ptr_sub (ptr_add (GetAddress (data_m v)) (size_m v)) 1) s) (\<lambda>p s.
      and_then (on_heap (destroy_at p) s) (\<lambda>u s.
        Return () (\<lparr>data_m = data_m v, size_m = size_t_sub (size_m v) 1\<rparr>, snd s))))"

subsection \<open>Operations on two vectors\<close>

text \<open>
  \<open>Swap(other)\<close> exchanges the members of the two objects. The result is \<open>*this\<close> and
  \<open>other\<close> afterwards.
\<close>

definition Swap :: "Vector \<Rightarrow> Vector \<Rightarrow> Vector \<times> Vector" where
  "Swap this other =
     (case RawMemory_Swap (data_m this) (data_m other) of
        (d, od) \<Rightarrow> (\<lparr>data_m = d, size_m = size_m other\<rparr>, \<lparr>data_m = od, size_m = size_m this\<rparr>))"

text \<open>
  The assignment operators can be called with both operands the same object, and the
  copy assignment asks whether they are. So their operands are named objects: a state
  is the vector held by each object, and the free store.
\<close>

type_synonym objects = "nat \<Rightarrow> Vector"

definition set_data :: "objects \<Rightarrow> nat \<Rightarrow> RawMemory \<Rightarrow> objects" where
  "set_data objs i d = objs(i := \<lparr>data_m = d, size_m = size_m (objs i)\<rparr>)"

definition set_size :: "objects \<Rightarrow> nat \<Rightarrow> nat \<Rightarrow> objects" where
  "set_size objs i n = objs(i := \<lparr>data_m = data_m (objs i), size_m = n\<rparr>)"

definition Swap_objects :: "nat \<Rightarrow> nat \<Rightarrow> objects \<Rightarrow> objects" where
  "Swap_objects this other objs =
     (case Swap (objs this) (objs other) of (a, b) \<Rightarrow> (objs(this := a))(other := b))"

text \<open>\<open>operator=(Vector&& rhs)\<close>, member by member.\<close>

definition MoveAssign :: "nat \<Rightarrow> nat \<Rightarrow> objects \<Rightarrow> objects" where
  "MoveAssign this rhs objs =
     (let o1 = (case RawMemory_move_assign (data_m (objs this)) (data_m (objs rhs)) of
                  (d, rd) \<Rightarrow> set_data (set_data objs this d) rhs rd);
          o2 = set_size o1 this (size_m (o1 rhs));
          o3 = set_size o2 rhs 0
      in o3)"

text \<open>\<open>operator=(const Vector& rhs)\<close>. The local \<open>rhs_copy\<close> is destroyed when its block is left.\<close>

definition CopyAssign :: "'a traits \<Rightarrow> nat \<Rightarrow> nat \<Rightarrow> objects \<times> 'a heap \<Rightarrow> (unit, objects \<times> 'a heap) outcome" where
  "CopyAssign T this rhs s =
     (let objs = fst s in
      if this \<noteq> rhs then
        (if size_m (objs rhs) > Capacity (data_m (objs this)) then
           and_then (on_heap (Vector_copy T (objs rhs)) s) (\<lambda>rhs_copy s.
             (case Swap (objs this) rhs_copy of
                (a, b) \<Rightarrow>
                  and_then (on_heap (Vector_dtor b) (objs(this := a), snd s)) (\<lambda>u s. Return () s)))
         else
           and_then (on_heap (copy_n T (GetAddress (data_m (objs rhs)))
                                (min (size_m (objs rhs)) (size_m (objs this)))
                                (GetAddress (data_m (objs this)))) s) (\<lambda>u s.
           and_then
             (if size_m (objs rhs) < size_m (objs this) then
                on_heap (destroy_n (ptr_add (GetAddress (data_m (objs this))) (size_m (objs rhs)))
                           (size_m (objs this) - size_m (objs rhs))) s
              else
                on_heap (uninitialized_copy_n T
                           (ptr_add (GetAddress (data_m (objs rhs))) (size_m (objs this)))
                           (size_m (objs rhs) - size_m (objs this))
                           (GetAddress (data_m (objs this)))) s)
             (\<lambda>u s. Return () (set_size (fst s) this (size_m (objs rhs)), snd s))))
      else Return () s)"

section \<open>What a vector holds\<close>

text \<open>
  The slots of the live range \<open>[0, size_)\<close> of a vector, read from the free store; \<open>None\<close>
  when the vector's storage is not an allocation of its capacity.
\<close>

definition slots :: "'a heap \<Rightarrow> Vector \<Rightarrow> 'a option list option" where
  "slots h v =
     (if capacity_m (data_m v) = 0 \<and> buffer_m (data_m v) = 0 then Some []
      else (case block h (buffer_m (data_m v)) of
              None \<Rightarrow> None
            | Some b \<Rightarrow> if length b = capacity_m (data_m v) then Some (take (size_m v) b) else None))"

definition elements :: "'a heap \<Rightarrow> Vector \<Rightarrow> 'a list option" where
  "elements h v =
     (case slots h v of
        None \<Rightarrow> None
      | Some ss \<Rightarrow> if length ss = size_m v \<and> list_all (\<lambda>x. x \<noteq> None) ss then Some (map the ss) else None)"

text \<open>The invariant of the data model: the length does not exceed the capacity.\<close>

definition invariant :: "Vector \<Rightarrow> bool" where
  "invariant v = (size_m v \<le> Capacity (data_m v))"

definition elements_of :: "Vector \<times> 'a heap \<Rightarrow> 'a list option" where
  "elements_of s = elements (snd s) (fst s)"

text \<open>The state a call returns in, the state an exception leaves in, the fault, and either state.\<close>

definition returned :: "('r, 's) outcome \<Rightarrow> 's option" where
  "returned m = (case m of Return r s \<Rightarrow> Some s | Throw e s \<Rightarrow> None | Fault x \<Rightarrow> None)"

definition thrown :: "('r, 's) outcome \<Rightarrow> 's option" where
  "thrown m = (case m of Return r s \<Rightarrow> None | Throw e s \<Rightarrow> Some s | Fault x \<Rightarrow> None)"

definition faulted :: "('r, 's) outcome \<Rightarrow> fault option" where
  "faulted m = (case m of Return r s \<Rightarrow> None | Throw e s \<Rightarrow> None | Fault x \<Rightarrow> Some x)"

definition comes_back :: "('r, 's) outcome \<Rightarrow> 's \<Rightarrow> bool" where
  "comes_back m s' = (case m of Return r s \<Rightarrow> s = s' | Throw e s \<Rightarrow> s = s' | Fault x \<Rightarrow> False)"

section \<open>Element types and stores to run the code on\<close>

definition plain :: "int traits" where
  "plain = \<lparr>size_of = 4, nothrow_move_constructible = True, copy_constructible = True,
            value_init = Some 0,
            copy_ctor_throws = (\<lambda>x. False), copy_asg_throws = (\<lambda>x. False),
            move_ctor_throws = (\<lambda>x. False), move_asg_throws = (\<lambda>x. False),
            moved_from = (\<lambda>x. x)\<rparr>"

text \<open>Copyable, with a move constructor that may throw; copying the value \<open>13\<close> throws.\<close>

definition copy_throws_13 :: "int traits" where
  "copy_throws_13 = \<lparr>size_of = 4, nothrow_move_constructible = False, copy_constructible = True,
            value_init = Some 0,
            copy_ctor_throws = (\<lambda>x. x = 13), copy_asg_throws = (\<lambda>x. False),
            move_ctor_throws = (\<lambda>x. False), move_asg_throws = (\<lambda>x. False),
            moved_from = (\<lambda>x. x)\<rparr>"

text \<open>Not copyable; moving from the value \<open>13\<close> throws, and a move leaves \<open>0\<close> behind.\<close>

definition move_only_throws_13 :: "int traits" where
  "move_only_throws_13 = \<lparr>size_of = 4, nothrow_move_constructible = False, copy_constructible = False,
            value_init = Some 0,
            copy_ctor_throws = (\<lambda>x. False), copy_asg_throws = (\<lambda>x. False),
            move_ctor_throws = (\<lambda>x. x = 13), move_asg_throws = (\<lambda>x. False),
            moved_from = (\<lambda>x. 0)\<rparr>"

definition empty_heap :: "'a heap" where
  "empty_heap = \<lparr>mem = (\<lambda>a. None), brk = 0, avail = 1000, leaked = 0\<rparr>"

text \<open>A store with one allocation, at address \<open>1\<close>.\<close>

definition heap1 :: "'a option list \<Rightarrow> 'a heap" where
  "heap1 b = \<lparr>mem = (\<lambda>a. None)(1 := Some b), brk = 1, avail = 1000, leaked = 0\<rparr>"

text \<open>A store with two allocations, at addresses \<open>1\<close> and \<open>2\<close>.\<close>

definition heap2 :: "'a option list \<Rightarrow> 'a option list \<Rightarrow> 'a heap" where
  "heap2 b c = \<lparr>mem = ((\<lambda>a. None)(1 := Some b))(2 := Some c), brk = 2, avail = 1000, leaked = 0\<rparr>"

definition vec :: "addr \<Rightarrow> nat \<Rightarrow> nat \<Rightarrow> Vector" where
  "vec a c n = \<lparr>data_m = \<lparr>buffer_m = a, capacity_m = c\<rparr>, size_m = n\<rparr>"

section \<open>Reasoning about outcomes\<close>

lemma and_then_Return_iff:
  "and_then m f = Return r s \<longleftrightarrow> (\<exists>r0 s0. m = Return r0 s0 \<and> f r0 s0 = Return r s)"
  by (cases m) (auto simp: and_then_def)

lemma and_then_Throw_iff:
  "and_then m f = Throw e s \<longleftrightarrow> m = Throw e s \<or> (\<exists>r0 s0. m = Return r0 s0 \<and> f r0 s0 = Throw e s)"
  by (cases m) (auto simp: and_then_def)

lemma on_throw_Return_iff: "on_throw m c = Return r s \<longleftrightarrow> m = Return r s"
  by (cases m) (auto simp: on_throw_def split: outcome.splits)

lemma on_throw_Throw_iff:
  "on_throw m c = Throw e s \<longleftrightarrow>
     (\<exists>e0 s0. m = Throw e0 s0 \<and> (c s0 = Return () s \<and> e = e0 \<or> c s0 = Throw e s))"
  by (cases m) (auto simp: on_throw_def split: outcome.splits)

lemma on_heap_Return_iff:
  "on_heap f s = Return r s' \<longleftrightarrow> (\<exists>h'. f (snd s) = Return r h' \<and> s' = (fst s, h'))"
  by (auto simp: on_heap_def split: outcome.splits)

lemma on_heap_Throw_iff:
  "on_heap f s = Throw e s' \<longleftrightarrow> (\<exists>h'. f (snd s) = Throw e h' \<and> s' = (fst s, h'))"
  by (auto simp: on_heap_def split: outcome.splits)

lemma asserted_Return_iff: "asserted x s = Return y s' \<longleftrightarrow> x = Some y \<and> s' = s"
  by (auto simp: asserted_def split: option.splits)

lemma asserted_no_Throw [simp]: "asserted x s \<noteq> Throw e s'"
  by (auto simp: asserted_def split: option.splits)

lemma defined_Return_iff: "defined x s = Return y s' \<longleftrightarrow> x = Some y \<and> s' = s"
  by (auto simp: defined_def split: option.splits)

lemma defined_no_Throw [simp]: "defined x s \<noteq> Throw e s'"
  by (auto simp: defined_def split: option.splits)

lemma constructed_Return_iff: "constructed x s = Return y s' \<longleftrightarrow> x = Some y \<and> s' = s"
  by (auto simp: constructed_def split: option.splits)

lemma constructed_Throw_iff:
  "constructed x s = Throw e s' \<longleftrightarrow> x = None \<and> s' = s \<and> e = ElementThrow"
  by (auto simp: constructed_def split: option.splits)

lemmas outcome_iffs =
  and_then_Return_iff and_then_Throw_iff on_throw_Return_iff on_throw_Throw_iff
  on_heap_Return_iff on_heap_Throw_iff asserted_Return_iff defined_Return_iff
  constructed_Return_iff constructed_Throw_iff

text \<open>What is \<open>noexcept\<close> in the code does not throw in the model.\<close>

lemma Deallocate_no_Throw [simp]: "Deallocate a h \<noteq> Throw e h'"
  by (simp add: Deallocate_def split: option.splits)

lemma RawMemory_dtor_no_Throw [simp]: "RawMemory_dtor m h \<noteq> Throw e h'"
  by (simp add: RawMemory_dtor_def)

lemma construct_at_no_Throw [simp]: "construct_at p x h \<noteq> Throw e h'"
  by (simp add: construct_at_def split: option.splits)

lemma destroy_at_no_Throw [simp]: "destroy_at p h \<noteq> Throw e h'"
  by (simp add: destroy_at_def split: option.splits)

lemma store_no_Throw [simp]: "store p x h \<noteq> Throw e h'"
  by (simp add: store_def split: option.splits)

lemma destroy_n_no_Throw [simp]: "destroy_n p n h \<noteq> Throw e h'"
  by (induction n arbitrary: p h) (auto simp: and_then_Throw_iff)

section \<open>Reasoning about the free store\<close>

lemma blockD: "block h a = Some b \<Longrightarrow> a \<noteq> 0 \<and> a \<le> brk h \<and> mem h a = Some b"
  by (auto simp: block_def split: if_splits)

lemma block_mem_upd:
  "block (h\<lparr>mem := (mem h)(a := x)\<rparr>) a' =
     (if a' = a then (if a = 0 \<or> brk h < a then None else x) else block h a')"
  by (simp add: block_def)

lemma block_leaked_upd [simp]: "block (h\<lparr>leaked := k\<rparr>) a = block h a"
  by (simp add: block_def)

lemma block_avail_upd [simp]: "block (h\<lparr>avail := k\<rparr>) a = block h a"
  by (simp add: block_def)

lemma poke_block:
  "block h a = Some b \<Longrightarrow> poke h (a, i) x = h\<lparr>mem := (mem h)(a := Some (b[i := x]))\<rparr>"
  by (simp add: poke_def)

lemma slot_block:
  "block h a = Some b \<Longrightarrow> slot h (a, i) = (if i < length b then Some (b ! i) else None)"
  by (simp add: slot_def)

lemma heap_restore: "mem h a = Some b \<Longrightarrow> h\<lparr>mem := (mem h)(a := Some b)\<rparr> = h"
  by (simp add: fun_upd_idem)

lemma ptr_add_pair [simp]: "ptr_add (a, i) k = (a, i + k)"
  by (simp add: ptr_add_def)

text \<open>
  To run \<open>Allocate\<close> on an input, the wrapped product is computed on the integers,
  which are evaluated in binary.
\<close>

lemma size_t_product:
  "nat ((int n * int s) mod 2 ^ 64) = (n * s) mod 2 ^ 64"
proof -
  have "int n * int s mod 2 ^ 64 = int ((n * s) mod 2 ^ 64)" by (simp add: zmod_int)
  then show ?thesis by simp
qed

lemma Allocate_code [code]:
  "Allocate T n h =
     (if n \<noteq> 0 then operator_new T (nat ((int n * int (size_of T)) mod 2 ^ 64)) h else Return 0 h)"
  by (simp only: Allocate_def size_t_product)

text \<open>
  An allocation never holds more slots than were asked for, and holds as many exactly
  when the byte count does not wrap.
\<close>

lemma slots_granted_le: "slots_granted T n \<le> n"
proof (cases "size_of T = 0")
  case True
  then show ?thesis by (simp add: slots_granted_def)
next
  case False
  have "(n * size_of T) mod 2 ^ 64 \<le> n * size_of T" by (rule mod_less_eq_dividend)
  then have "((n * size_of T) mod 2 ^ 64) div size_of T \<le> (n * size_of T) div size_of T"
    by (rule div_le_mono)
  with False show ?thesis by (simp add: slots_granted_def)
qed

lemma slots_granted_exact:
  "0 < size_of T \<Longrightarrow> n * size_of T < 2 ^ 64 \<Longrightarrow> slots_granted T n = n"
  by (simp add: slots_granted_def)

lemma slots_granted_wrapped:
  assumes "0 < size_of T" "2 ^ 64 \<le> n * size_of T"
  shows "slots_granted T n < n"
proof -
  have "(n * size_of T) mod 2 ^ 64 < n * size_of T"
  proof -
    have "(n * size_of T) mod 2 ^ 64 < (2 ^ 64 :: nat)" by simp
    with assms(2) show ?thesis by linarith
  qed
  then have "((n * size_of T) mod 2 ^ 64) div size_of T < n"
    using assms(1) by (simp add: div_less_iff_less_mult)
  then show ?thesis by (simp add: slots_granted_def)
qed

lemma Allocate_Return:
  "n \<noteq> 0 \<Longrightarrow> slots_granted T n \<le> avail h \<Longrightarrow>
   Allocate T n h = Return (Suc (brk h))
     (h\<lparr>mem := (mem h)(Suc (brk h) := Some (replicate (slots_granted T n) None)), brk := Suc (brk h),
        avail := avail h - slots_granted T n\<rparr>)"
  by (simp add: Allocate_def operator_new_def slots_granted_def)

lemma Allocate_ReturnD:
  assumes "Allocate T n h = Return a h1" "n \<noteq> 0"
  shows "a = Suc (brk h) \<and> slots_granted T n \<le> avail h \<and>
         h1 = h\<lparr>mem := (mem h)(Suc (brk h) := Some (replicate (slots_granted T n) None)), brk := Suc (brk h),
                 avail := avail h - slots_granted T n\<rparr>"
  using assms by (auto simp: Allocate_def operator_new_def slots_granted_def split: if_splits)

lemma Allocate_ThrowD: "Allocate T n h = Throw e h' \<Longrightarrow> h' = h"
  by (auto simp: Allocate_def operator_new_def split: if_splits)

section \<open>The sized constructor\<close>

lemma uninitialized_value_construct_n_Return:
  "value_init T = Some d \<Longrightarrow> block h a = Some b \<Longrightarrow> i + n \<le> length b \<Longrightarrow>
   (\<forall>j. i \<le> j \<and> j < i + n \<longrightarrow> b ! j = None) \<Longrightarrow>
   \<exists>b'. uninitialized_value_construct_n T (a, i) n h = Return () (h\<lparr>mem := (mem h)(a := Some b')\<rparr>)
        \<and> length b' = length b
        \<and> (\<forall>j < length b. b' ! j = (if i \<le> j \<and> j < i + n then Some d else b ! j))"
proof (induction n arbitrary: i h b)
  case 0
  have eq: "h\<lparr>mem := (mem h)(a := Some b)\<rparr> = h"
    using blockD[OF 0(2)] by (simp add: heap_restore)
  show ?case
  proof (rule exI[of _ b], intro conjI)
    show "uninitialized_value_construct_n T (a, i) 0 h = Return () (h\<lparr>mem := (mem h)(a := Some b)\<rparr>)"
      by (simp only: eq uninitialized_value_construct_n.simps)
  qed auto
next
  case (Suc n)
  let ?b1 = "b[i := Some d]"
  let ?h1 = "h\<lparr>mem := (mem h)(a := Some ?b1)\<rparr>"
  have a: "a \<noteq> 0" "a \<le> brk h" using blockD[OF Suc.prems(2)] by auto
  have raw: "b ! i = None" and lt: "i < length b" using Suc.prems by auto
  have step: "value_construct T (a, i) h = Return () ?h1"
    using Suc.prems(1,2) raw lt
    by (simp add: value_construct_def construct_at_def slot_block poke_block)
  have blk1: "block ?h1 a = Some ?b1" using a by (simp add: block_mem_upd)
  have "\<exists>b'. uninitialized_value_construct_n T (a, Suc i) n ?h1 = Return () (?h1\<lparr>mem := (mem ?h1)(a := Some b')\<rparr>)
        \<and> length b' = length ?b1
        \<and> (\<forall>j < length ?b1. b' ! j = (if Suc i \<le> j \<and> j < Suc i + n then Some d else ?b1 ! j))"
    using Suc.prems by (intro Suc.IH[OF Suc.prems(1) blk1]) auto
  then obtain b' where b':
     "uninitialized_value_construct_n T (a, Suc i) n ?h1 = Return () (?h1\<lparr>mem := (mem ?h1)(a := Some b')\<rparr>)"
     "length b' = length b"
     "\<forall>j < length b. b' ! j = (if Suc i \<le> j \<and> j < Suc i + n then Some d else ?b1 ! j)"
    by auto
  have "uninitialized_value_construct_n T (a, i) (Suc n) h = Return () (h\<lparr>mem := (mem h)(a := Some b')\<rparr>)"
    using step b'(1) by (simp add: and_then_def on_throw_def)
  moreover have "\<forall>j < length b. b' ! j = (if i \<le> j \<and> j < i + Suc n then Some d else b ! j)"
    using b'(3) lt by (auto simp: nth_list_update)
  ultimately show ?case using b'(2) by blast
qed

text \<open>
  A construction of more elements than the allocation has slots runs past its end.
\<close>

lemma uninitialized_value_construct_n_overrun:
  "value_init T = Some d \<Longrightarrow> block h a = Some b \<Longrightarrow> i \<le> length b \<Longrightarrow> length b < i + n \<Longrightarrow>
   uninitialized_value_construct_n T (a, i) n h = Fault UndefinedBehaviour"
proof (induction n arbitrary: i h b)
  case 0
  then show ?case by simp
next
  case (Suc n)
  show ?case
  proof (cases "i < length b")
    case False
    then have "slot h (a, i) = None" using Suc.prems(2) by (simp add: slot_block)
    then show ?thesis
      using Suc.prems(1) by (simp add: value_construct_def construct_at_def and_then_def)
  next
    case True
    have a: "a \<noteq> 0" "a \<le> brk h" using blockD[OF Suc.prems(2)] by auto
    have "\<exists>h1. value_construct T (a, i) h = Return () h1 \<and> block h1 a = Some (b[i := Some d])"
      using Suc.prems(1,2) True a
      by (cases "b ! i") (simp_all add: value_construct_def construct_at_def slot_block poke_block block_mem_upd)
    then obtain h1 where step: "value_construct T (a, i) h = Return () h1"
        and blk1: "block h1 a = Some (b[i := Some d])" by blast
    have "uninitialized_value_construct_n T (a, Suc i) n h1 = Fault UndefinedBehaviour"
      using Suc.prems True by (intro Suc.IH[OF Suc.prems(1) blk1]) auto
    then show ?thesis using step by (simp add: and_then_def on_throw_def)
  qed
qed

lemma Vector_sized_total:
  assumes d: "value_init T = Some d" and g: "slots_granted T n = n" and n: "n \<le> avail h"
  shows "\<exists>v h'. Vector_sized T n h = Return v h' \<and> Size v = n \<and> Capacity (data_m v) = n
           \<and> elements h' v = Some (replicate n d)"
proof (cases "n = 0")
  case True
  then show ?thesis
    by (simp add: Vector_sized_def RawMemory_new_def Allocate_def and_then_def on_throw_def GetAddress_def
        Size_def Capacity_def elements_def slots_def)
next
  case False
  let ?N = "Suc (brk h)"
  let ?h1 = "h\<lparr>mem := (mem h)(?N := Some (replicate n None)), brk := ?N, avail := avail h - n\<rparr>"
  have blk: "block ?h1 ?N = Some (replicate n None)" by (simp add: block_def)
  have al: "Allocate T n h = Return ?N ?h1"
    using Allocate_Return[of n T h] False g n by simp
  obtain b' where b':
      "uninitialized_value_construct_n T (?N, 0) n ?h1 = Return () (?h1\<lparr>mem := (mem ?h1)(?N := Some b')\<rparr>)"
      "length b' = n" "\<forall>j < n. b' ! j = Some d"
    using uninitialized_value_construct_n_Return[OF d blk, of 0 n] by auto
  let ?h2 = "?h1\<lparr>mem := (mem ?h1)(?N := Some b')\<rparr>"
  let ?v = "\<lparr>data_m = \<lparr>buffer_m = ?N, capacity_m = n\<rparr>, size_m = n\<rparr>"
  have run: "Vector_sized T n h = Return ?v ?h2"
    using al b'(1)
    by (simp add: Vector_sized_def RawMemory_new_def and_then_def on_throw_def GetAddress_def)
  have "b' = replicate n (Some d)"
    using b'(2,3) by (simp add: list_eq_iff_nth_eq)
  then have "elements ?h2 ?v = Some (replicate n d)"
    using False by (simp add: elements_def slots_def block_def list_all_length)
  then show ?thesis using run by (simp add: Size_def Capacity_def)
qed

text \<open>
  The constructor returns only when the allocation holds all \<open>n\<close> slots: with fewer,
  the construction of the elements runs past the end of the allocation.
\<close>

lemma Vector_sized_Return:
  assumes r: "Vector_sized T n h = Return v h'"
  shows "n = 0 \<or> (n \<le> avail h \<and> value_init T \<noteq> None \<and> slots_granted T n = n)"
proof (cases n)
  case 0
  then show ?thesis by simp
next
  case (Suc m)
  let ?N = "Suc (brk h)"
  let ?k = "slots_granted T n"
  let ?h1 = "h\<lparr>mem := (mem h)(?N := Some (replicate ?k None)), brk := ?N, avail := avail h - ?k\<rparr>"
  from r obtain a h1 h2 where al: "Allocate T n h = Return a h1"
      and u: "uninitialized_value_construct_n T (a, 0) n h1 = Return () h2"
    by (auto simp: Vector_sized_def RawMemory_new_def outcome_iffs GetAddress_def)
  from Allocate_ReturnD[OF al] Suc have a: "a = ?N" and av: "?k \<le> avail h" and h1: "h1 = ?h1"
    by auto
  have blk: "block ?h1 ?N = Some (replicate ?k None)" by (simp add: block_def)
  have d: "value_init T \<noteq> None"
  proof
    assume "value_init T = None"
    then have "uninitialized_value_construct_n T (a, 0) (Suc m) h1 = Throw ElementThrow h1"
      by (simp add: value_construct_def and_then_def)
    with u Suc show False by simp
  qed
  then obtain d where d': "value_init T = Some d" by auto
  have "\<not> ?k < n"
  proof
    assume "?k < n"
    then have "uninitialized_value_construct_n T (?N, 0) n ?h1 = Fault UndefinedBehaviour"
      by (intro uninitialized_value_construct_n_overrun[OF d' blk]) simp_all
    with u a h1 show False by simp
  qed
  with slots_granted_le[of T n] have "?k = n" by simp
  with av d show ?thesis by simp
qed

text \<open>
  Claim C7, as amended. For every size \<open>n\<close> whose byte count \<open>n * sizeof(T)\<close> fits
  \<open>size_t\<close>, the sized constructor yields a vector of length \<open>n\<close> and capacity \<open>n\<close>
  whose elements all equal the value a value-initialisation of the element type gives:
  it returns whenever that initialisation does not throw and the allocator can provide
  \<open>n\<close> slots, and whenever it returns, for any \<open>n\<close>, the vector is as described.
\<close>

theorem Vector_sized_correct:
  "(value_init T \<noteq> None \<and> 0 < size_of T \<and> n * size_of T < 2 ^ 64 \<and> n \<le> avail h
      \<longrightarrow> (\<exists>v h'. Vector_sized T n h = Return v h')) \<and>
   (\<forall>v h'. Vector_sized T n h = Return v h' \<longrightarrow>
      Size v = n \<and> Capacity (data_m v) = n \<and>
      (\<exists>es. elements h' v = Some es \<and> length es = n \<and> (\<forall>e \<in> set es. value_init T = Some e)))"
proof (intro conjI impI allI)
  assume "value_init T \<noteq> None \<and> 0 < size_of T \<and> n * size_of T < 2 ^ 64 \<and> n \<le> avail h"
  then obtain d where "value_init T = Some d" "slots_granted T n = n" "n \<le> avail h"
    using slots_granted_exact[of T n] by auto
  from Vector_sized_total[OF this] show "\<exists>v h'. Vector_sized T n h = Return v h'" by blast
next
  fix v h' assume r: "Vector_sized T n h = Return v h'"
  have sz: "Size v = n \<and> Capacity (data_m v) = n \<and>
      (\<exists>es. elements h' v = Some es \<and> length es = n \<and> (\<forall>e \<in> set es. value_init T = Some e))"
  proof (cases "n = 0")
    case True
    then show ?thesis using r
      by (auto simp: Vector_sized_def RawMemory_new_def Allocate_def and_then_def on_throw_def GetAddress_def
        Size_def Capacity_def elements_def slots_def)
  next
    case False
    then obtain d where d: "value_init T = Some d" and g: "slots_granted T n = n" and n: "n \<le> avail h"
      using Vector_sized_Return[OF r] by auto
    from Vector_sized_total[OF d g n] r d show ?thesis by auto
  qed
  then show "Size v = n" "Capacity (data_m v) = n"
    "\<exists>es. elements h' v = Some es \<and> length es = n \<and> (\<forall>e \<in> set es. value_init T = Some e)" by auto
qed

theorem Vector_sized_correct_witness:
  "value_init plain \<noteq> None \<and> 0 < size_of plain \<and> 3 * size_of plain < 2 ^ 64 \<and>
   (3::nat) \<le> avail (empty_heap :: int heap) \<and>
   (\<exists>v h'. Vector_sized plain 3 (empty_heap :: int heap) = Return v h' \<and> Size v = 3 \<and>
      Capacity (data_m v) = 3 \<and>
      (\<exists>es. elements h' v = Some es \<and> length es = 3 \<and> list_all (\<lambda>e. value_init plain = Some e) es))"
proof -
  have h: "value_init plain \<noteq> None \<and> 0 < size_of plain \<and> 3 * size_of plain < 2 ^ 64 \<and>
           (3::nat) \<le> avail (empty_heap :: int heap)"
    by (simp add: plain_def empty_heap_def)
  from Vector_sized_correct[of plain 3 "empty_heap :: int heap"] h show ?thesis
    by (auto simp: list_all_iff)
qed

text \<open>
  The claim as stated fails for a size whose byte count does not fit: for an element
  type of four bytes and \<open>n = 2 ^ 62 + 1\<close> the product \<open>n * sizeof(T)\<close> wraps to \<open>4\<close>,
  the allocation holds one slot, and the construction of the second element writes
  past its end. The constructor does not yield a vector of \<open>n\<close> elements.
\<close>

theorem Vector_sized_byte_count_wraps:
  "(2 ^ 62 + 1) * size_of plain mod 2 ^ 64 = 4 \<and>
   slots_granted plain (2 ^ 62 + 1) = 1 \<and>
   Vector_sized plain (2 ^ 62 + 1) (empty_heap :: int heap) = Fault UndefinedBehaviour"
proof -
  let ?n = "2 ^ 62 + 1 :: nat"
  let ?h = "empty_heap :: int heap"
  let ?N = "Suc (brk ?h)"
  let ?h1 = "?h\<lparr>mem := (mem ?h)(?N := Some (replicate (slots_granted plain ?n) None)),
               brk := ?N, avail := avail ?h - slots_granted plain ?n\<rparr>"
  have w: "?n * size_of plain mod 2 ^ 64 = 4" by (simp add: plain_def)
  have k: "slots_granted plain ?n = 1" by (simp add: slots_granted_def plain_def)
  have al: "Allocate plain ?n ?h = Return ?N ?h1"
    by (rule Allocate_Return) (use k in \<open>simp_all add: empty_heap_def\<close>)
  have blk: "block ?h1 ?N = Some (replicate (slots_granted plain ?n) None)"
    by (simp add: block_def)
  have "uninitialized_value_construct_n plain (?N, 0) ?n ?h1 = Fault UndefinedBehaviour"
    by (rule uninitialized_value_construct_n_overrun[OF _ blk]) (use k in \<open>simp_all add: plain_def\<close>)
  then have "Vector_sized plain ?n ?h = Fault UndefinedBehaviour"
    using al by (simp add: Vector_sized_def RawMemory_new_def and_then_def on_throw_def GetAddress_def)
  with w k show ?thesis by (intro conjI)
qed

section \<open>Moving raw storage and vectors\<close>

text \<open>
  Claim C3, as amended. A move assignment of \<open>RawMemory\<close> exchanges address and
  capacity: the destination receives the source's, the source is left with what the
  destination held, so its capacity is zero exactly when the destination's was. A move
  construction gives the new object the source's address and capacity.
\<close>

theorem RawMemory_move_exchanges:
  "RawMemory_move_assign dst src = (src, dst) \<and>
   (capacity_m (snd (RawMemory_move_assign dst src)) = 0 \<longleftrightarrow> capacity_m dst = 0) \<and>
   fst (RawMemory_move_ctor src) = src"
  by (simp add: RawMemory_move_assign_def RawMemory_move_ctor_def)

theorem RawMemory_move_exchanges_witness:
  "RawMemory_move_assign RawMemory_default \<lparr>buffer_m = 2, capacity_m = 5\<rparr>
     = (\<lparr>buffer_m = 2, capacity_m = 5\<rparr>, RawMemory_default) \<and>
   capacity_m (snd (RawMemory_move_assign RawMemory_default \<lparr>buffer_m = 2, capacity_m = 5\<rparr>)) = 0"
  using RawMemory_move_exchanges[of RawMemory_default "\<lparr>buffer_m = 2, capacity_m = 5\<rparr>"]
  by (simp add: RawMemory_default_def)

text \<open>
  The claim as stated fails: assigned to a destination of capacity \<open>3\<close>, the source
  is left with capacity \<open>3\<close>.
\<close>

theorem RawMemory_move_assign_source_not_empty:
  "snd (RawMemory_move_assign \<lparr>buffer_m = 1, capacity_m = 3\<rparr> \<lparr>buffer_m = 2, capacity_m = 5\<rparr>)
     = \<lparr>buffer_m = 1, capacity_m = 3\<rparr> \<and>
   capacity_m (snd (RawMemory_move_assign \<lparr>buffer_m = 1, capacity_m = 3\<rparr> \<lparr>buffer_m = 2, capacity_m = 5\<rparr>)) \<noteq> 0"
  by (simp add: RawMemory_move_assign_def)

text \<open>
  The move constructor leaves its source as it was, so two objects hold the same
  address, and the second of the two destructors releases storage that is no longer
  allocated.
\<close>

lemma RawMemory_move_ctor_source_unchanged: "snd (RawMemory_move_ctor src) = src"
  by (simp add: RawMemory_move_ctor_def)

lemma RawMemory_move_ctor_double_release:
  "and_then (RawMemory_new plain 4 (empty_heap :: int heap)) (\<lambda>a h.
     and_then (RawMemory_dtor (fst (RawMemory_move_ctor a)) h) (\<lambda>u h.
       RawMemory_dtor (snd (RawMemory_move_ctor a)) h))
   = Fault UndefinedBehaviour"
  by (simp add: RawMemory_new_def Allocate_def operator_new_def plain_def empty_heap_def and_then_def
      RawMemory_dtor_def RawMemory_move_ctor_def Deallocate_def block_def)

text \<open>
  Claim C8. Move-constructing \<open>B\<close> from \<open>A\<close> gives \<open>B\<close> the length, the capacity, the
  storage and so the elements \<open>A\<close> had, and leaves \<open>A\<close> with length zero.
\<close>

theorem Vector_move_transfers:
  "Size (fst (Vector_move A)) = Size A \<and>
   Capacity (data_m (fst (Vector_move A))) = Capacity (data_m A) \<and>
   buffer_m (data_m (fst (Vector_move A))) = buffer_m (data_m A) \<and>
   elements h (fst (Vector_move A)) = elements h A \<and>
   Size (snd (Vector_move A)) = 0"
proof -
  have "fst (Vector_move A) = A"
    by (simp add: Vector_move_def RawMemory_move_assign_def)
  moreover have "Size (snd (Vector_move A)) = 0"
    by (simp add: Vector_move_def RawMemory_move_assign_def Size_def)
  ultimately show ?thesis by simp
qed

theorem Vector_move_transfers_witness:
  "Size (fst (Vector_move (vec 1 4 3))) = 3 \<and>
   Capacity (data_m (fst (Vector_move (vec 1 4 3)))) = 4 \<and>
   elements (heap1 [Some 5, Some 6, Some 7, None]) (fst (Vector_move (vec 1 4 3))) = Some [5, 6, 7 :: int] \<and>
   Size (snd (Vector_move (vec 1 4 3))) = 0"
proof -
  have e: "elements (heap1 [Some 5, Some 6, Some 7, None]) (vec 1 4 3) = Some [5, 6, 7 :: int]"
    by (simp add: elements_def slots_def heap1_def vec_def block_def)
  from Vector_move_transfers[of "vec 1 4 3" "heap1 [Some 5, Some 6, Some 7, None :: int option]"] e
  show ?thesis by (simp add: vec_def Size_def Capacity_def)
qed

section \<open>Reserve within the capacity\<close>

text \<open>
  Claim C9. \<open>Reserve\<close> with a requested capacity that is at most the current capacity
  returns and changes nothing: not the vector, not the free store.
\<close>

theorem Reserve_within_capacity:
  "new_capacity \<le> Capacity (data_m v) \<Longrightarrow> Reserve T new_capacity (v, h) = Return () (v, h)"
  by (simp add: Reserve_def)

theorem Reserve_within_capacity_witness:
  "(2::nat) \<le> Capacity (data_m (vec 1 4 3)) \<and>
   Reserve plain 2 (vec 1 4 3, heap1 [Some 5, Some 6, Some 7, None])
     = Return () (vec 1 4 3, heap1 [Some 5, Some 6, Some 7, None])"
proof -
  have h: "(2::nat) \<le> Capacity (data_m (vec 1 4 3))"
    by (simp add: vec_def Capacity_def)
  from Reserve_within_capacity[OF h] h show ?thesis by simp
qed

section \<open>Insertion at the end\<close>

text \<open>
  Claim C6. \<open>Insert(end(), x)\<close> and \<open>PushBack(x)\<close> have the same outcome: the same
  final vector and free store when they return, the same state when they throw. Only
  the iterator \<open>Insert\<close> returns is dropped, \<open>PushBack\<close> returning nothing. This holds
  for the overloads taking an lvalue and for those taking an rvalue.
\<close>

theorem Insert_at_end_is_PushBack:
  "and_then (Insert T (Vector_end v) x (v, h)) (\<lambda>p s. Return () s) = PushBack T x (v, h) \<and>
   and_then (Insert_rvalue T (Vector_end v) x (v, h)) (\<lambda>p s. Return () s) = PushBack_rvalue T x (v, h)"
  by (simp add: Insert_def Insert_rvalue_def PushBack_def PushBack_rvalue_def EmplaceBack_def)

theorem Insert_at_end_is_PushBack_witness:
  "and_then (Insert plain (Vector_end (vec 1 2 2)) 9 (vec 1 2 2, heap1 [Some 5, Some 6])) (\<lambda>p s. Return () s)
     = PushBack plain 9 (vec 1 2 2, heap1 [Some 5, Some 6]) \<and>
   map_option elements_of (returned (PushBack plain 9 (vec 1 2 2, heap1 [Some 5, Some 6]))) = Some (Some [5, 6, 9])"
proof -
  have "map_option elements_of (returned (PushBack plain 9 (vec 1 2 2, heap1 [Some 5, Some 6]))) = Some (Some [5, 6, 9])"
    by code_simp
  with Insert_at_end_is_PushBack[of plain "vec 1 2 2" 9 "heap1 [Some 5, Some 6]"] show ?thesis by simp
qed

section \<open>What a call does to the members\<close>

lemma Emplace_Throw_this: "Emplace T pos args (v, h) = Throw e (v', h') \<Longrightarrow> v' = v"
  by (auto simp: Emplace_def Let_def outcome_iffs RawMemory_Swap_def split: if_splits)

lemma Emplace_Return_grow:
  "\<not> size_m v < Capacity (data_m v) \<Longrightarrow> Emplace T pos args (v, h) = Return p (v', h') \<Longrightarrow>
     size_m v' = size_m v + 1 \<and> capacity_m (data_m v') = (if size_m v = 0 then 1 else size_m v * 2)"
  by (clarsimp simp: Emplace_def Let_def outcome_iffs RawMemory_Swap_def RawMemory_new_def)

lemma Emplace_Return_room:
  "size_m v < Capacity (data_m v) \<Longrightarrow> Emplace T pos args (v, h) = Return p (v', h') \<Longrightarrow>
     size_m v' = size_m v + 1 \<and> data_m v' = data_m v"
  by (auto simp: Emplace_def Let_def outcome_iffs split: if_splits)

lemma Reserve_Throw_this: "Reserve T n s = Throw e s' \<Longrightarrow> fst s' = fst s"
  by (auto simp: Reserve_def Let_def outcome_iffs RawMemory_Swap_def split: if_splits)

lemma Reserve_Return_this:
  "Reserve T n s = Return u s' \<Longrightarrow>
     size_m (fst s') = size_m (fst s) \<and>
     (if n \<le> Capacity (data_m (fst s)) then s' = s else capacity_m (data_m (fst s')) = n)"
  by (auto simp: Reserve_def Let_def outcome_iffs RawMemory_Swap_def RawMemory_new_def split: if_splits)

lemma Resize_Return_this:
  "Resize T n s = Return u s' \<Longrightarrow>
     size_m (fst s') = n \<and>
     (if n \<le> size_m (fst s) \<or> n \<le> Capacity (data_m (fst s)) then data_m (fst s') = data_m (fst s)
      else capacity_m (data_m (fst s')) = n)"
  by (auto simp: Resize_def outcome_iffs split: if_splits dest!: Reserve_Return_this)

lemma Resize_Throw_this:
  assumes "Resize T n s = Throw e s'"
  shows "size_m (fst s') = size_m (fst s) \<and>
     (data_m (fst s') = data_m (fst s) \<or> (Capacity (data_m (fst s)) < n \<and> capacity_m (data_m (fst s')) = n))"
proof (cases "n \<noteq> size_m (fst s) \<and> \<not> n < size_m (fst s)")
  case False
  then show ?thesis using assms
    by (auto simp: Resize_def and_then_Throw_iff on_heap_Throw_iff)
next
  case True
  then have "and_then (Reserve T n s) (\<lambda>u s. on_heap (uninitialized_value_construct_n T
                  (ptr_add (GetAddress (data_m (fst s))) (size_m (fst s))) (n - size_m (fst s))) s)
             = Throw e s'"
    using assms by (simp add: Resize_def and_then_Throw_iff)
  then consider "Reserve T n s = Throw e s'"
    | s1 where "Reserve T n s = Return () s1" "fst s' = fst s1"
    by (auto simp: and_then_Throw_iff on_heap_Throw_iff)
  then show ?thesis
  proof cases
    case 1
    then show ?thesis using Reserve_Throw_this[OF 1] by simp
  next
    case 2
    then show ?thesis using Reserve_Return_this[OF 2(1)]
      by (auto simp: Capacity_def split: if_splits)
  qed
qed

section \<open>The growth policy\<close>

text \<open>
  Claim C2, as amended. An insertion into a vector whose length has reached its
  capacity (\<open>Emplace\<close>, \<open>Insert\<close>, \<open>EmplaceBack\<close>, \<open>PushBack\<close>) reallocates to the capacity
  \<open>max(1, oldCapacity * 2)\<close>. A \<open>Resize\<close> or a \<open>Reserve\<close> to more than the capacity
  reallocates to exactly the size or capacity asked for.
\<close>

theorem growth_capacity:
  "(size_m v = Capacity (data_m v) \<and> Emplace T pos args (v, h) = Return p (v', h')
      \<longrightarrow> Capacity (data_m v') = max 1 (Capacity (data_m v) * 2)) \<and>
   (size_m v = Capacity (data_m v) \<and> Insert T pos x (v, h) = Return p (v', h')
      \<longrightarrow> Capacity (data_m v') = max 1 (Capacity (data_m v) * 2)) \<and>
   (size_m v = Capacity (data_m v) \<and> Insert_rvalue T pos x (v, h) = Return p (v', h')
      \<longrightarrow> Capacity (data_m v') = max 1 (Capacity (data_m v) * 2)) \<and>
   (size_m v = Capacity (data_m v) \<and> EmplaceBack T args (v, h) = Return p (v', h')
      \<longrightarrow> Capacity (data_m v') = max 1 (Capacity (data_m v) * 2)) \<and>
   (size_m v = Capacity (data_m v) \<and> PushBack T x (v, h) = Return () (v', h')
      \<longrightarrow> Capacity (data_m v') = max 1 (Capacity (data_m v) * 2)) \<and>
   (size_m v = Capacity (data_m v) \<and> PushBack_rvalue T x (v, h) = Return () (v', h')
      \<longrightarrow> Capacity (data_m v') = max 1 (Capacity (data_m v) * 2)) \<and>
   (size_m v \<le> Capacity (data_m v) \<and> Capacity (data_m v) < n \<and> Resize T n (v, h) = Return () (v', h')
      \<longrightarrow> Capacity (data_m v') = n) \<and>
   (Capacity (data_m v) < n \<and> Reserve T n (v, h) = Return () (v', h')
      \<longrightarrow> Capacity (data_m v') = n)"
proof -
  have E: "Capacity (data_m w) = max 1 (Capacity (data_m v) * 2)"
    if "size_m v = Capacity (data_m v) \<and> Emplace T q a (v, h) = Return r (w, k)" for q a r w k
    using Emplace_Return_grow[of v T q a h r w k] that by (auto simp: Capacity_def)
  have P: "Capacity (data_m w) = max 1 (Capacity (data_m v) * 2)"
    if "size_m v = Capacity (data_m v) \<and> and_then (Emplace T q a (v, h)) (\<lambda>r s. Return () s) = Return () (w, k)"
    for q a w k
  proof -
    from that obtain r where "Emplace T q a (v, h) = Return r (w, k)"
      by (auto simp: and_then_Return_iff)
    with that E show ?thesis by blast
  qed
  have R: "Capacity (data_m v') = n"
    if "size_m v \<le> Capacity (data_m v) \<and> Capacity (data_m v) < n \<and> Resize T n (v, h) = Return () (v', h')"
    using Resize_Return_this[of T n "(v, h)" "()" "(v', h')"] that by (auto simp: Capacity_def split: if_splits)
  have V: "Capacity (data_m v') = n"
    if "Capacity (data_m v) < n \<and> Reserve T n (v, h) = Return () (v', h')"
    using Reserve_Return_this[of T n "(v, h)" "()" "(v', h')"] that by (auto simp: Capacity_def split: if_splits)
  show ?thesis
    unfolding Insert_def Insert_rvalue_def EmplaceBack_def PushBack_def PushBack_rvalue_def fst_conv
    by (intro conjI impI; (erule E | erule P | erule R | erule V))
qed

lemma returned_SomeD: "returned m = Some s \<Longrightarrow> \<exists>r. m = Return r s"
  by (cases m) (auto simp: returned_def)

lemma faulted_SomeD: "faulted m = Some f \<Longrightarrow> m = Fault f"
  by (cases m) (auto simp: faulted_def)

lemma thrown_SomeD: "thrown m = Some s \<Longrightarrow> \<exists>e. m = Throw e s"
  by (cases m) (auto simp: thrown_def)

theorem growth_capacity_witness:
  "size_m (vec 1 2 2) = Capacity (data_m (vec 1 2 2)) \<and>
   (\<exists>v' h'. PushBack plain 7 (vec 1 2 2, heap1 [Some 5, Some 6]) = Return () (v', h') \<and>
      Capacity (data_m v') = 4) \<and>
   size_m (vec 1 2 2) \<le> Capacity (data_m (vec 1 2 2)) \<and> Capacity (data_m (vec 1 2 2)) < 5 \<and>
   (\<exists>v' h'. Resize plain 5 (vec 1 2 2, heap1 [Some 5, Some 6]) = Return () (v', h') \<and>
      Capacity (data_m v') = 5)"
proof -
  let ?v = "vec 1 2 2" and ?h = "heap1 [Some 5, Some (6::int)]"
  have c: "size_m ?v = Capacity (data_m ?v)" "Capacity (data_m ?v) = 2"
    by (simp_all add: vec_def Capacity_def)
  have "returned (PushBack plain 7 (?v, ?h)) \<noteq> None"
    by code_simp
  then obtain s1 where "returned (PushBack plain 7 (?v, ?h)) = Some s1" by blast
  then have p: "PushBack plain 7 (?v, ?h) = Return () (fst s1, snd s1)"
    by (auto dest: returned_SomeD)
  have "returned (Resize plain 5 (?v, ?h)) \<noteq> None"
    by code_simp
  then obtain s2 where "returned (Resize plain 5 (?v, ?h)) = Some s2" by blast
  then have r: "Resize plain 5 (?v, ?h) = Return () (fst s2, snd s2)"
    by (auto dest: returned_SomeD)
  have "Capacity (data_m (fst s1)) = max 1 (Capacity (data_m ?v) * 2)"
    using growth_capacity[where v = ?v and T = plain and h = ?h and v' = "fst s1" and h' = "snd s1" and x = 7]
      p c(1) by blast
  then have 1: "Capacity (data_m (fst s1)) = 4" using c(2) by simp
  have 2: "Capacity (data_m (fst s2)) = 5"
    using growth_capacity[where v = ?v and T = plain and h = ?h and v' = "fst s2" and h' = "snd s2" and n = 5]
      r c by simp
  have A: "\<exists>v' h'. PushBack plain 7 (?v, ?h) = Return () (v', h') \<and> Capacity (data_m v') = 4"
    using p 1 by blast
  have B: "\<exists>v' h'. Resize plain 5 (?v, ?h) = Return () (v', h') \<and> Capacity (data_m v') = 5"
    using r 2 by blast
  show ?thesis using A B c by simp
qed

text \<open>
  The claim as stated fails for a growing resize: resizing the empty vector, of
  capacity \<open>0\<close>, to \<open>5\<close> gives the capacity \<open>5\<close>, and \<open>max(1, 0 * 2)\<close> is \<open>1\<close>.
\<close>

theorem Resize_grows_to_the_size_asked:
  "map_option (Capacity \<circ> data_m \<circ> fst) (returned (Resize plain 5 (Vector_default, empty_heap))) = Some 5 \<and>
   (5::nat) \<noteq> max 1 (Capacity (data_m Vector_default) * 2)"
  by code_simp

section \<open>Copy assignment into storage that suffices\<close>

text \<open>
  Claim C1 at \<open>a = {1, 2}\<close> with capacity \<open>4\<close> and \<open>b = {7, 8, 9}\<close>, two distinct
  objects: \<open>b.size_ \<le> a.Capacity()\<close>, so \<open>a = b\<close> keeps \<open>a\<close>'s storage. It returns with
  \<open>a.size_ = 3\<close> and \<open>b\<close> unchanged, but \<open>a\<close>'s slots are \<open>9, 8\<close> and a raw slot: the
  extra suffix was copy-constructed from the start of the storage, over the first
  element, not behind the overlapping prefix.
\<close>

theorem CopyAssign_reuse_misplaces_suffix:
  "elements (heap2 [Some 1, Some 2, None, None] [Some 7, Some 8, Some 9]) (vec 1 4 2) = Some [1, 2 :: int] \<and>
   elements (heap2 [Some 1, Some 2, None, None] [Some 7, Some 8, Some 9]) (vec 2 3 3) = Some [7, 8, 9 :: int] \<and>
   (case CopyAssign plain 0 1
           ((\<lambda>i. Vector_default)(0 := vec 1 4 2, 1 := vec 2 3 3),
            heap2 [Some 1, Some 2, None, None] [Some 7, Some 8, Some 9]) of
      Return u s \<Rightarrow>
        Size (fst s 0) = 3 \<and> Capacity (data_m (fst s 0)) = 4 \<and>
        slots (snd s) (fst s 0) = Some [Some 9, Some 8, None] \<and>
        elements (snd s) (fst s 0) = None \<and>
        elements (snd s) (fst s 1) = Some [7, 8, 9] \<and>
        leaked (snd s) = 1
    | Throw e s \<Rightarrow> False
    | Fault f \<Rightarrow> False)"
  by code_simp

section \<open>Erase\<close>

text \<open>
  Claim C5 at the last position of a vector whose length equals its capacity, here
  \<open>{5, 6}\<close> with capacity \<open>2\<close> and the position \<open>begin() + 1\<close>: the nothrow-move branch
  of \<open>Erase\<close> evaluates \<open>data_[(pos - begin() + 1)]\<close>, and the index \<open>2\<close> fails the
  assertion \<open>index < capacity_\<close> of \<open>RawMemory::operator[]\<close>.
\<close>

theorem Erase_last_of_full_vector_aborts:
  "elements (heap1 [Some 5, Some 6]) (vec 1 2 2) = Some [5, 6 :: int] \<and>
   invariant (vec 1 2 2) \<and>
   ptr_diff (1, 1) (Vector_begin (vec 1 2 2)) = Some 1 \<and>
   Erase plain (1, 1) (vec 1 2 2, heap1 [Some 5, Some 6]) = Fault AssertionFailed"
proof -
  have "faulted (Erase plain (1, 1) (vec 1 2 2, heap1 [Some 5, Some 6])) = Some AssertionFailed"
    by code_simp
  then have "Erase plain (1, 1) (vec 1 2 2, heap1 [Some 5, Some 6]) = Fault AssertionFailed"
    by (rule faulted_SomeD)
  moreover have "elements (heap1 [Some 5, Some 6]) (vec 1 2 2) = Some [5, 6 :: int]"
    by code_simp
  moreover have "invariant (vec 1 2 2)" "ptr_diff (1, 1) (Vector_begin (vec 1 2 2)) = Some 1"
    by code_simp+
  ultimately show ?thesis by simp
qed

text \<open>So it is for every such vector and every element type that takes this branch.\<close>

lemma Erase_last_of_full_vector_faults:
  assumes "nothrow_move_constructible T \<or> \<not> copy_constructible T"
    and "size_m v = Capacity (data_m v)" and "0 < size_m v"
    and "pos = (buffer_m (data_m v), size_m v - 1)"
  shows "\<exists>f. Erase T pos (v, h) = Fault f"
proof (cases "destroy_at pos h")
  case (Return u h1)
  then show ?thesis using assms
    by (simp add: Erase_def on_heap_def and_then_def defined_def ptr_diff_def Vector_begin_def
        GetAddress_def asserted_def RawMemory_at_def Capacity_def)
next
  case (Throw e h1)
  then show ?thesis by simp
next
  case (Fault f)
  then show ?thesis by (simp add: Erase_def on_heap_def and_then_def)
qed

text \<open>
  Elsewhere \<open>Erase\<close> removes the element and keeps the storage (in general: lemma
  \<open>Erase_Return_removes\<close> below), and it leaves the last element's old slot alive
  behind the new end.
\<close>

lemma Erase_in_the_middle:
  "(case Erase plain (1, 1) (vec 1 4 3, heap1 [Some 5, Some 6, Some 7, None]) of
      Return p s \<Rightarrow>
        p = (1, 1) \<and> fst s = vec 1 4 2 \<and> elements (snd s) (fst s) = Some [5, 7] \<and>
        block (snd s) 1 = Some [Some 5, Some 7, Some 7, None]
    | Throw e s \<Rightarrow> False
    | Fault f \<Rightarrow> False)"
  by code_simp

section \<open>The invariant\<close>

lemma std_move_Return_range:
  "std_move T first lim d h = Return u h' \<Longrightarrow> fst lim = fst first \<and> snd first \<le> snd lim"
  by (auto simp: std_move_def ptr_diff_def split: option.splits if_splits)

lemma std_copy_Return_range:
  "std_copy T first lim d h = Return u h' \<Longrightarrow> fst lim = fst first \<and> snd first \<le> snd lim"
  by (auto simp: std_copy_def ptr_diff_def split: option.splits if_splits)

lemma Erase_Throw_this: "Erase T pos (v, h) = Throw e (v', h') \<Longrightarrow> v' = v"
  by (auto simp: Erase_def Let_def outcome_iffs split: if_splits)

lemma Erase_Return_this:
  assumes "Erase T pos (v, h) = Return p (v', h')"
  shows "data_m v' = data_m v \<and> Suc (size_m v') = size_m v"
proof -
  from assms have "v' = \<lparr>data_m = data_m v, size_m = size_t_sub (size_m v) 1\<rparr> \<and> 0 < size_m v"
    by (auto simp: Erase_def Let_def outcome_iffs RawMemory_at_def Vector_end_def Vector_begin_def
        GetAddress_def ptr_add_def ptr_diff_def
        split: if_splits dest!: std_move_Return_range std_copy_Return_range)
  then show ?thesis by (simp add: size_t_sub_def)
qed

lemma PopBack_no_Throw: "PopBack (v, h) \<noteq> Throw e s'"
  by (auto simp: PopBack_def Let_def outcome_iffs)

lemma PopBack_Return_this:
  "PopBack (v, h) = Return u (v', h') \<Longrightarrow> 0 < size_m v \<and> data_m v' = data_m v \<and> Suc (size_m v') = size_m v"
  by (auto simp: PopBack_def Let_def outcome_iffs ptr_sub_def GetAddress_def ptr_add_def size_t_sub_def
      split: if_splits)

lemma PopBack_empty: "size_m v = 0 \<Longrightarrow> PopBack (v, h) = Fault UndefinedBehaviour"
  by (simp add: PopBack_def Let_def ptr_sub_def GetAddress_def ptr_add_def defined_def and_then_def)

lemma Vector_copy_Return_this:
  "Vector_copy T other h = Return c h' \<Longrightarrow> size_m c = size_m other \<and> capacity_m (data_m c) = size_m other"
  by (auto simp: Vector_copy_def outcome_iffs RawMemory_new_def)

lemma Vector_dtor_no_Throw [simp]: "Vector_dtor v h \<noteq> Throw e h'"
  by (auto simp: Vector_dtor_def outcome_iffs)

lemma CopyAssign_Throw_objects: "CopyAssign T this rhs (objs, h) = Throw e (objs', h') \<Longrightarrow> objs' = objs"
  by (auto simp: CopyAssign_def Let_def outcome_iffs Swap_def RawMemory_Swap_def split: if_splits)

lemma CopyAssign_Return_objects:
  assumes "CopyAssign T this rhs (objs, h) = Return u (objs', h')"
  shows "this = rhs \<and> objs' = objs \<or>
         this \<noteq> rhs \<and> (\<forall>i. i \<noteq> this \<longrightarrow> objs' i = objs i) \<and> size_m (objs' this) = size_m (objs rhs) \<and>
           (if size_m (objs rhs) > Capacity (data_m (objs this))
            then capacity_m (data_m (objs' this)) = size_m (objs rhs)
            else data_m (objs' this) = data_m (objs this))"
proof (cases "this = rhs")
  case True
  then show ?thesis using assms by (simp add: CopyAssign_def)
next
  case False
  show ?thesis
  proof (cases "size_m (objs rhs) > Capacity (data_m (objs this))")
    case True
    then show ?thesis using assms False
      by (auto simp: CopyAssign_def Let_def outcome_iffs Swap_def RawMemory_Swap_def
          dest!: Vector_copy_Return_this)
  next
    case big: False
    then show ?thesis using assms False
      by (auto simp: CopyAssign_def Let_def outcome_iffs set_size_def split: if_splits)
  qed
qed

lemma invariant_Emplace:
  assumes "invariant v" "comes_back (Emplace T pos args (v, h)) (v', h')"
  shows "invariant v'"
proof (cases "Emplace T pos args (v, h)")
  case (Return p s)
  then have r: "Emplace T pos args (v, h) = Return p (v', h')" using assms(2) by (simp add: comes_back_def)
  show ?thesis
  proof (cases "size_m v < Capacity (data_m v)")
    case True
    then show ?thesis using Emplace_Return_room[OF True r] by (simp add: invariant_def)
  next
    case False
    then show ?thesis using Emplace_Return_grow[OF False r] by (simp add: invariant_def Capacity_def)
  qed
next
  case (Throw e s)
  then have "Emplace T pos args (v, h) = Throw e (v', h')" using assms(2) by (simp add: comes_back_def)
  then show ?thesis using Emplace_Throw_this assms(1) by blast
next
  case (Fault f)
  then show ?thesis using assms(2) by (simp add: comes_back_def)
qed

lemma comes_back_and_then_Return:
  "comes_back (and_then m (\<lambda>r s. Return () s)) s' = comes_back m s'"
  by (cases m) (simp_all add: comes_back_def and_then_def)

lemma invariant_Erase:
  assumes "invariant v" "comes_back (Erase T pos (v, h)) (v', h')"
  shows "invariant v'"
proof (cases "Erase T pos (v, h)")
  case (Return p s)
  then have "Erase T pos (v, h) = Return p (v', h')" using assms(2) by (simp add: comes_back_def)
  from Erase_Return_this[OF this] assms(1) show ?thesis by (auto simp: invariant_def)
next
  case (Throw e s)
  then have "Erase T pos (v, h) = Throw e (v', h')" using assms(2) by (simp add: comes_back_def)
  then show ?thesis using Erase_Throw_this assms(1) by blast
next
  case (Fault f)
  then show ?thesis using assms(2) by (simp add: comes_back_def)
qed

lemma invariant_PopBack:
  assumes "invariant v" "comes_back (PopBack (v, h)) (v', h')"
  shows "invariant v' \<and> 0 < size_m v"
proof (cases "PopBack (v, h)")
  case (Return u s)
  then have "PopBack (v, h) = Return u (v', h')" using assms(2) by (simp add: comes_back_def)
  from PopBack_Return_this[OF this] assms(1) show ?thesis by (auto simp: invariant_def)
next
  case (Throw e s)
  then show ?thesis using PopBack_no_Throw by blast
next
  case (Fault f)
  then show ?thesis using assms(2) by (simp add: comes_back_def)
qed

lemma invariant_Reserve:
  assumes "invariant v" "comes_back (Reserve T n (v, h)) (v', h')"
  shows "invariant v'"
proof (cases "Reserve T n (v, h)")
  case (Return u s)
  then have "Reserve T n (v, h) = Return u (v', h')" using assms(2) by (simp add: comes_back_def)
  from Reserve_Return_this[OF this] assms(1) show ?thesis
    by (auto simp: invariant_def Capacity_def split: if_splits)
next
  case (Throw e s)
  then have "Reserve T n (v, h) = Throw e (v', h')" using assms(2) by (simp add: comes_back_def)
  from Reserve_Throw_this[OF this] assms(1) show ?thesis by simp
next
  case (Fault f)
  then show ?thesis using assms(2) by (simp add: comes_back_def)
qed

lemma invariant_Resize:
  assumes "invariant v" "comes_back (Resize T n (v, h)) (v', h')"
  shows "invariant v'"
proof (cases "Resize T n (v, h)")
  case (Return u s)
  then have "Resize T n (v, h) = Return u (v', h')" using assms(2) by (simp add: comes_back_def)
  from Resize_Return_this[OF this] assms(1) show ?thesis
    by (auto simp: invariant_def Capacity_def split: if_splits)
next
  case (Throw e s)
  then have "Resize T n (v, h) = Throw e (v', h')" using assms(2) by (simp add: comes_back_def)
  from Resize_Throw_this[OF this] assms(1) show ?thesis
    by (auto simp: invariant_def Capacity_def)
next
  case (Fault f)
  then show ?thesis using assms(2) by (simp add: comes_back_def)
qed

lemma invariant_CopyAssign:
  assumes "\<forall>i. invariant (objs i)" "comes_back (CopyAssign T this rhs (objs, h)) (objs', h')"
  shows "invariant (objs' i)"
proof (cases "CopyAssign T this rhs (objs, h)")
  case (Return u s)
  then have "CopyAssign T this rhs (objs, h) = Return u (objs', h')" using assms(2) by (simp add: comes_back_def)
  from CopyAssign_Return_objects[OF this] assms(1) show ?thesis
    by (cases "i = this") (auto simp: invariant_def Capacity_def split: if_splits)
next
  case (Throw e s)
  then have "CopyAssign T this rhs (objs, h) = Throw e (objs', h')" using assms(2) by (simp add: comes_back_def)
  from CopyAssign_Throw_objects[OF this] assms(1) show ?thesis by simp
next
  case (Fault f)
  then show ?thesis using assms(2) by (simp add: comes_back_def)
qed

lemma invariant_MoveAssign:
  assumes "\<forall>i. invariant (objs i)"
  shows "invariant (MoveAssign this rhs objs i)"
  using assms
  by (auto simp: MoveAssign_def Let_def set_data_def set_size_def RawMemory_move_assign_def
      invariant_def Capacity_def)

lemma invariant_Swap:
  assumes "invariant a" "invariant b"
  shows "invariant (fst (Swap a b)) \<and> invariant (snd (Swap a b))"
  using assms by (simp add: Swap_def RawMemory_Swap_def invariant_def Capacity_def)

lemma invariant_Swap_objects:
  assumes "\<forall>i. invariant (objs i)"
  shows "invariant (Swap_objects this other objs i)"
  using assms invariant_Swap[of "objs this" "objs other"]
  by (auto simp: Swap_objects_def split: prod.splits)

text \<open>
  Claim C10. From a vector whose length does not exceed its capacity, every call that
  comes back, by returning or by an exception, leaves the length within the capacity:
  \<open>Emplace\<close>, \<open>Insert\<close>, \<open>EmplaceBack\<close>, \<open>PushBack\<close>, \<open>Erase\<close>, \<open>PopBack\<close>, \<open>Resize\<close> and
  \<open>Reserve\<close> for the vector they run on, the two assignments and \<open>Swap\<close> for every object,
  their two operands included, which may be the same object. \<open>PopBack\<close> comes back
  only from a vector that holds an element: it does not check, and on an empty vector
  the address it destroys at lies before the storage.
\<close>

theorem invariant_preserved:
  "(invariant v \<and> comes_back (Emplace T pos args (v, h)) (v', h') \<longrightarrow> invariant v') \<and>
   (invariant v \<and> comes_back (Insert T pos x (v, h)) (v', h') \<longrightarrow> invariant v') \<and>
   (invariant v \<and> comes_back (Insert_rvalue T pos x (v, h)) (v', h') \<longrightarrow> invariant v') \<and>
   (invariant v \<and> comes_back (EmplaceBack T args (v, h)) (v', h') \<longrightarrow> invariant v') \<and>
   (invariant v \<and> comes_back (PushBack T x (v, h)) (v', h') \<longrightarrow> invariant v') \<and>
   (invariant v \<and> comes_back (PushBack_rvalue T x (v, h)) (v', h') \<longrightarrow> invariant v') \<and>
   (invariant v \<and> comes_back (Erase T pos (v, h)) (v', h') \<longrightarrow> invariant v') \<and>
   (invariant v \<and> comes_back (PopBack (v, h)) (v', h') \<longrightarrow> invariant v' \<and> 0 < size_m v) \<and>
   (size_m v = 0 \<longrightarrow> PopBack (v, h) = Fault UndefinedBehaviour) \<and>
   (invariant v \<and> comes_back (Resize T n (v, h)) (v', h') \<longrightarrow> invariant v') \<and>
   (invariant v \<and> comes_back (Reserve T n (v, h)) (v', h') \<longrightarrow> invariant v') \<and>
   ((\<forall>i. invariant (objs i)) \<and> comes_back (CopyAssign T this rhs (objs, h)) (objs', h')
      \<longrightarrow> (\<forall>i. invariant (objs' i))) \<and>
   ((\<forall>i. invariant (objs i)) \<longrightarrow> (\<forall>i. invariant (MoveAssign this rhs objs i))) \<and>
   ((\<forall>i. invariant (objs i)) \<longrightarrow> (\<forall>i. invariant (Swap_objects this rhs objs i))) \<and>
   (invariant v \<and> invariant w \<longrightarrow> invariant (fst (Swap v w)) \<and> invariant (snd (Swap v w)))"
proof (intro conjI impI allI; (elim conjE)?)
  show "invariant v'" if "invariant v" "comes_back (Emplace T pos args (v, h)) (v', h')"
    using that by (rule invariant_Emplace)
  show "invariant v'" if "invariant v" "comes_back (Insert T pos x (v, h)) (v', h')"
    using that unfolding Insert_def by (rule invariant_Emplace)
  show "invariant v'" if "invariant v" "comes_back (Insert_rvalue T pos x (v, h)) (v', h')"
    using that unfolding Insert_rvalue_def by (rule invariant_Emplace)
  show "invariant v'" if "invariant v" "comes_back (EmplaceBack T args (v, h)) (v', h')"
    using that unfolding EmplaceBack_def by (rule invariant_Emplace)
  show "invariant v'" if "invariant v" "comes_back (PushBack T x (v, h)) (v', h')"
    using that unfolding PushBack_def EmplaceBack_def comes_back_and_then_Return by (rule invariant_Emplace)
  show "invariant v'" if "invariant v" "comes_back (PushBack_rvalue T x (v, h)) (v', h')"
    using that unfolding PushBack_rvalue_def EmplaceBack_def comes_back_and_then_Return by (rule invariant_Emplace)
  show "invariant v'" if "invariant v" "comes_back (Erase T pos (v, h)) (v', h')"
    using that by (rule invariant_Erase)
  show "invariant v'" "0 < size_m v" if "invariant v" "comes_back (PopBack (v, h)) (v', h')"
    using invariant_PopBack[OF that] by simp_all
  show "PopBack (v, h) = Fault UndefinedBehaviour" if "size_m v = 0"
    using that by (rule PopBack_empty)
  show "invariant v'" if "invariant v" "comes_back (Resize T n (v, h)) (v', h')"
    using that by (rule invariant_Resize)
  show "invariant v'" if "invariant v" "comes_back (Reserve T n (v, h)) (v', h')"
    using that by (rule invariant_Reserve)
  show "invariant (objs' i)"
    if "\<forall>i. invariant (objs i)" "comes_back (CopyAssign T this rhs (objs, h)) (objs', h')" for i
    using that by (rule invariant_CopyAssign)
  show "invariant (MoveAssign this rhs objs i)" if "\<forall>i. invariant (objs i)" for i
    using that by (rule invariant_MoveAssign)
  show "invariant (Swap_objects this rhs objs i)" if "\<forall>i. invariant (objs i)" for i
    using that by (rule invariant_Swap_objects)
  show "invariant (fst (Swap v w))" "invariant (snd (Swap v w))" if "invariant v" "invariant w"
    using invariant_Swap[OF that] by simp_all
qed

lemma returned_comes_back: "returned m = Some s \<Longrightarrow> comes_back m s"
  by (cases m) (auto simp: returned_def comes_back_def)

lemma thrown_comes_back: "thrown m = Some s \<Longrightarrow> comes_back m s"
  by (cases m) (auto simp: thrown_def comes_back_def)

theorem invariant_preserved_witness:
  "invariant (vec 1 4 3) \<and>
   (\<exists>s. comes_back (Emplace plain (1, 1) (Some 9) (vec 1 4 3, heap1 [Some 5, Some 6, Some 7, None])) s \<and>
        invariant (fst s)) \<and>
   (\<exists>s. comes_back (PushBack plain 9 (vec 1 4 3, heap1 [Some 5, Some 6, Some 7, None])) s \<and>
        invariant (fst s)) \<and>
   invariant (vec 1 3 3) \<and>
   (\<exists>s. thrown (Insert copy_throws_13 (1, 1) 9 (vec 1 3 3, heap1 [Some 5, Some 6, Some 13])) = Some s \<and>
        invariant (fst s)) \<and>
   (\<exists>s. comes_back (Erase plain (1, 1) (vec 1 4 3, heap1 [Some 5, Some 6, Some 7, None])) s \<and>
        invariant (fst s)) \<and>
   (\<exists>s. comes_back (PopBack (vec 1 4 3, heap1 [Some 5, Some 6, Some 7, None :: int option])) s \<and>
        invariant (fst s)) \<and>
   size_m Vector_default = 0 \<and>
   PopBack (Vector_default, empty_heap :: int heap) = Fault UndefinedBehaviour \<and>
   (\<exists>s. comes_back (Resize plain 6 (vec 1 4 3, heap1 [Some 5, Some 6, Some 7, None])) s \<and>
        invariant (fst s)) \<and>
   (\<exists>s. comes_back (Reserve plain 6 (vec 1 4 3, heap1 [Some 5, Some 6, Some 7, None])) s \<and>
        invariant (fst s)) \<and>
   (\<exists>s. comes_back (CopyAssign plain 0 1
                       ((\<lambda>i. Vector_default)(0 := vec 1 4 2, 1 := vec 2 3 3),
                        heap2 [Some 1, Some 2, None, None] [Some 7, Some 8, Some 9])) s \<and>
        invariant (fst s 0) \<and> invariant (fst s 1)) \<and>
   invariant (MoveAssign 0 1 ((\<lambda>i. Vector_default)(0 := vec 1 4 2, 1 := vec 2 3 3)) 0) \<and>
   invariant (MoveAssign 0 1 ((\<lambda>i. Vector_default)(0 := vec 1 4 2, 1 := vec 2 3 3)) 1) \<and>
   invariant (MoveAssign 0 0 ((\<lambda>i. Vector_default)(0 := vec 1 4 2, 1 := vec 2 3 3)) 0) \<and>
   invariant (Swap_objects 0 1 ((\<lambda>i. Vector_default)(0 := vec 1 4 2, 1 := vec 2 3 3)) 0) \<and>
   invariant (fst (Swap (vec 1 4 3) (vec 1 3 3))) \<and> invariant (snd (Swap (vec 1 4 3) (vec 1 3 3)))"
proof -
  let ?v = "vec 1 4 3" and ?H = "heap1 [Some 5, Some 6, Some 7, None :: int option]"
  let ?w = "vec 1 3 3" and ?K = "heap1 [Some 5, Some 6, Some (13 :: int)]"
  let ?objs = "(\<lambda>i. Vector_default)(0 := vec 1 4 2, 1 := vec 2 3 3)"
  let ?H2 = "heap2 [Some 1, Some 2, None, None] [Some 7, Some 8, Some (9 :: int)]"
  have iv: "invariant ?v" and iw: "invariant ?w"
    by (simp_all add: invariant_def vec_def Capacity_def)
  have io: "\<forall>i. invariant (?objs i)"
    by (simp add: invariant_def vec_def Capacity_def Vector_default_def RawMemory_default_def)
  have emp: "size_m Vector_default = 0"
    by (simp add: Vector_default_def)

  have "returned (Emplace plain (1, 1) (Some 9) (?v, ?H)) \<noteq> None" by code_simp
  then obtain s1 where "returned (Emplace plain (1, 1) (Some 9) (?v, ?H)) = Some s1" by blast
  then have c1: "comes_back (Emplace plain (1, 1) (Some 9) (?v, ?H)) (fst s1, snd s1)"
    by (simp add: returned_comes_back)
  have 1: "invariant (fst s1)"
    by (rule invariant_preserved[where v = ?v and T = plain and pos = "(1, 1)" and args = "Some 9"
        and h = ?H and v' = "fst s1" and h' = "snd s1", THEN conjunct1, rule_format])
       (rule conjI[OF iv c1])

  have "returned (PushBack plain 9 (?v, ?H)) \<noteq> None" by code_simp
  then obtain s2 where "returned (PushBack plain 9 (?v, ?H)) = Some s2" by blast
  then have c2: "comes_back (PushBack plain 9 (?v, ?H)) (fst s2, snd s2)"
    by (simp add: returned_comes_back)
  have 2: "invariant (fst s2)"
    by (rule invariant_preserved[where v = ?v and T = plain and x = 9
        and h = ?H and v' = "fst s2" and h' = "snd s2", THEN conjunct2, THEN conjunct2, THEN conjunct2, THEN conjunct2, THEN conjunct1, rule_format])
       (rule conjI[OF iv c2])

  have "thrown (Insert copy_throws_13 (1, 1) 9 (?w, ?K)) \<noteq> None" by code_simp
  then obtain s3 where t3: "thrown (Insert copy_throws_13 (1, 1) 9 (?w, ?K)) = Some s3" by blast
  then have c3: "comes_back (Insert copy_throws_13 (1, 1) 9 (?w, ?K)) (fst s3, snd s3)"
    by (simp add: thrown_comes_back)
  have 3: "invariant (fst s3)"
    by (rule invariant_preserved[where v = ?w and T = copy_throws_13 and pos = "(1, 1)" and x = 9
        and h = ?K and v' = "fst s3" and h' = "snd s3", THEN conjunct2, THEN conjunct1, rule_format])
       (rule conjI[OF iw c3])

  have "returned (Erase plain (1, 1) (?v, ?H)) \<noteq> None" by code_simp
  then obtain s4 where "returned (Erase plain (1, 1) (?v, ?H)) = Some s4" by blast
  then have c4: "comes_back (Erase plain (1, 1) (?v, ?H)) (fst s4, snd s4)"
    by (simp add: returned_comes_back)
  have 4: "invariant (fst s4)"
    by (rule invariant_preserved[where v = ?v and T = plain and pos = "(1, 1)"
        and h = ?H and v' = "fst s4" and h' = "snd s4", THEN conjunct2, THEN conjunct2, THEN conjunct2, THEN conjunct2, THEN conjunct2, THEN conjunct2, THEN conjunct1, rule_format])
       (rule conjI[OF iv c4])

  have "returned (PopBack (?v, ?H)) \<noteq> None" by code_simp
  then obtain s5 where "returned (PopBack (?v, ?H)) = Some s5" by blast
  then have c5: "comes_back (PopBack (?v, ?H)) (fst s5, snd s5)"
    by (simp add: returned_comes_back)
  have 5: "invariant (fst s5)"
    using invariant_preserved[where v = ?v and h = ?H and v' = "fst s5" and h' = "snd s5",
        THEN conjunct2, THEN conjunct2, THEN conjunct2, THEN conjunct2, THEN conjunct2, THEN conjunct2, THEN conjunct2, THEN conjunct1, rule_format, OF conjI[OF iv c5]] by simp

  have 6: "PopBack (Vector_default, empty_heap :: int heap) = Fault UndefinedBehaviour"
    by (rule invariant_preserved[where v = Vector_default and h = "empty_heap :: int heap", THEN conjunct2, THEN conjunct2, THEN conjunct2, THEN conjunct2, THEN conjunct2, THEN conjunct2, THEN conjunct2, THEN conjunct2, THEN conjunct1, rule_format])
       (rule emp)

  have "returned (Resize plain 6 (?v, ?H)) \<noteq> None" by code_simp
  then obtain s7 where "returned (Resize plain 6 (?v, ?H)) = Some s7" by blast
  then have c7: "comes_back (Resize plain 6 (?v, ?H)) (fst s7, snd s7)"
    by (simp add: returned_comes_back)
  have 7: "invariant (fst s7)"
    by (rule invariant_preserved[where v = ?v and T = plain and n = 6
        and h = ?H and v' = "fst s7" and h' = "snd s7", THEN conjunct2, THEN conjunct2, THEN conjunct2, THEN conjunct2, THEN conjunct2, THEN conjunct2, THEN conjunct2, THEN conjunct2, THEN conjunct2, THEN conjunct1, rule_format])
       (rule conjI[OF iv c7])

  have "returned (Reserve plain 6 (?v, ?H)) \<noteq> None" by code_simp
  then obtain s8 where "returned (Reserve plain 6 (?v, ?H)) = Some s8" by blast
  then have c8: "comes_back (Reserve plain 6 (?v, ?H)) (fst s8, snd s8)"
    by (simp add: returned_comes_back)
  have 8: "invariant (fst s8)"
    by (rule invariant_preserved[where v = ?v and T = plain and n = 6
        and h = ?H and v' = "fst s8" and h' = "snd s8", THEN conjunct2, THEN conjunct2, THEN conjunct2, THEN conjunct2, THEN conjunct2, THEN conjunct2, THEN conjunct2, THEN conjunct2, THEN conjunct2, THEN conjunct2, THEN conjunct1, rule_format])
       (rule conjI[OF iv c8])

  have "returned (CopyAssign plain 0 1 (?objs, ?H2)) \<noteq> None" by code_simp
  then obtain s9 where "returned (CopyAssign plain 0 1 (?objs, ?H2)) = Some s9" by blast
  then have c9: "comes_back (CopyAssign plain 0 1 (?objs, ?H2)) (fst s9, snd s9)"
    by (simp add: returned_comes_back)
  have 9: "\<forall>i. invariant (fst s9 i)"
    using invariant_preserved[where T = plain and this = 0 and rhs = 1 and objs = ?objs
        and h = ?H2 and objs' = "fst s9" and h' = "snd s9",
        THEN conjunct2, THEN conjunct2, THEN conjunct2, THEN conjunct2, THEN conjunct2, THEN conjunct2, THEN conjunct2, THEN conjunct2, THEN conjunct2, THEN conjunct2, THEN conjunct2, THEN conjunct1, THEN mp, OF conjI[OF io c9]] .

  have 10: "\<forall>i. invariant (MoveAssign 0 1 ?objs i)"
    using invariant_preserved[where this = 0 and rhs = 1 and objs = ?objs,
        THEN conjunct2, THEN conjunct2, THEN conjunct2, THEN conjunct2, THEN conjunct2, THEN conjunct2, THEN conjunct2, THEN conjunct2, THEN conjunct2, THEN conjunct2, THEN conjunct2, THEN conjunct2, THEN conjunct1, THEN mp, OF io] .
  have 11: "\<forall>i. invariant (MoveAssign 0 0 ?objs i)"
    using invariant_preserved[where this = 0 and rhs = 0 and objs = ?objs,
        THEN conjunct2, THEN conjunct2, THEN conjunct2, THEN conjunct2, THEN conjunct2, THEN conjunct2, THEN conjunct2, THEN conjunct2, THEN conjunct2, THEN conjunct2, THEN conjunct2, THEN conjunct2, THEN conjunct1, THEN mp, OF io] .
  have 12: "\<forall>i. invariant (Swap_objects 0 1 ?objs i)"
    using invariant_preserved[where this = 0 and rhs = 1 and objs = ?objs,
        THEN conjunct2, THEN conjunct2, THEN conjunct2, THEN conjunct2, THEN conjunct2, THEN conjunct2, THEN conjunct2, THEN conjunct2, THEN conjunct2, THEN conjunct2, THEN conjunct2, THEN conjunct2, THEN conjunct2, THEN conjunct1, THEN mp, OF io] .
  have 13: "invariant (fst (Swap ?v ?w)) \<and> invariant (snd (Swap ?v ?w))"
    by (rule invariant_preserved[where v = ?v and w = ?w, THEN conjunct2, THEN conjunct2, THEN conjunct2, THEN conjunct2, THEN conjunct2, THEN conjunct2, THEN conjunct2, THEN conjunct2, THEN conjunct2, THEN conjunct2, THEN conjunct2, THEN conjunct2, THEN conjunct2, THEN conjunct2, rule_format])
       (rule conjI[OF iv iw])

  have A1: "\<exists>s. comes_back (Emplace plain (1, 1) (Some 9) (?v, ?H)) s \<and> invariant (fst s)"
    using c1 1 by (intro exI[of _ "(fst s1, snd s1)"]) simp
  have A2: "\<exists>s. comes_back (PushBack plain 9 (?v, ?H)) s \<and> invariant (fst s)"
    using c2 2 by (intro exI[of _ "(fst s2, snd s2)"]) simp
  have A3: "\<exists>s. thrown (Insert copy_throws_13 (1, 1) 9 (?w, ?K)) = Some s \<and> invariant (fst s)"
    using t3 3 by blast
  have A4: "\<exists>s. comes_back (Erase plain (1, 1) (?v, ?H)) s \<and> invariant (fst s)"
    using c4 4 by (intro exI[of _ "(fst s4, snd s4)"]) simp
  have A5: "\<exists>s. comes_back (PopBack (?v, ?H)) s \<and> invariant (fst s)"
    using c5 5 by (intro exI[of _ "(fst s5, snd s5)"]) simp
  have A7: "\<exists>s. comes_back (Resize plain 6 (?v, ?H)) s \<and> invariant (fst s)"
    using c7 7 by (intro exI[of _ "(fst s7, snd s7)"]) simp
  have A8: "\<exists>s. comes_back (Reserve plain 6 (?v, ?H)) s \<and> invariant (fst s)"
    using c8 8 by (intro exI[of _ "(fst s8, snd s8)"]) simp
  have A9: "\<exists>s. comes_back (CopyAssign plain 0 1 (?objs, ?H2)) s \<and> invariant (fst s 0) \<and> invariant (fst s 1)"
    using c9 9 by (intro exI[of _ "(fst s9, snd s9)"]) simp
  show ?thesis
    using iv iw emp A1 A2 A3 A4 A5 6 A7 A8 A9 10 11 12 13
    by (intro conjI) (simp_all only: simp_thms)
qed

section \<open>Transfers into fresh storage\<close>

lemma construct_at_raw:
  "block h a = Some b \<Longrightarrow> i < length b \<Longrightarrow> b ! i = None \<Longrightarrow>
   construct_at (a, i) x h = Return () (h\<lparr>mem := (mem h)(a := Some (b[i := Some x]))\<rparr>)"
  by (simp add: construct_at_def slot_block poke_block)

lemma construct_at_Return_raw:
  assumes "construct_at (a, i) x h = Return () h'" "block h a = Some b" "i < length b \<longrightarrow> b ! i = None"
  shows "i < length b \<and> h' = h\<lparr>mem := (mem h)(a := Some (b[i := Some x]))\<rparr>"
  using assms by (auto simp: construct_at_def slot_block poke_block split: if_splits option.splits)

lemma destroy_at_Return:
  assumes "destroy_at (a, i) h = Return () h'" "block h a = Some b"
  shows "i < length b \<and> h' = h\<lparr>mem := (mem h)(a := Some (b[i := None]))\<rparr>"
  using assms by (auto simp: destroy_at_def slot_block poke_block split: if_splits option.splits)

lemma block_after_write:
  "block h a = Some b \<Longrightarrow> block (h\<lparr>mem := (mem h)(a := Some b')\<rparr>) a = Some b'"
  by (auto simp: block_mem_upd dest: blockD)

lemma write_write [simp]:
  "h\<lparr>mem := (mem h)(a := x)\<rparr>\<lparr>mem := (mem (h\<lparr>mem := (mem h)(a := x)\<rparr>))(a := y)\<rparr> = h\<lparr>mem := (mem h)(a := y)\<rparr>"
  by simp

lemma uninitialized_copy_n_Throw:
  assumes "uninitialized_copy_n T src n (da, di) h = Throw e h'"
    and "block h da = Some db"
    and "\<forall>j. di \<le> j \<and> j < di + n \<and> j < length db \<longrightarrow> db ! j = None"
  shows "h' = h"
  using assms
proof (induction n arbitrary: src di h db e h')
  case 0
  then show ?case by simp
next
  case (Suc n)
  from Suc.prems(1) consider
      (first) "copy_construct T src (da, di) h = Throw e h'"
    | (later) h1 e0 h2 where "copy_construct T src (da, di) h = Return () h1"
        "uninitialized_copy_n T (ptr_add src 1) n (da, Suc di) h1 = Throw e0 h2"
        "destroy_at (da, di) h2 = Return () h'"
    by (auto simp: and_then_Throw_iff on_throw_Throw_iff)
  then show ?case
  proof cases
    case first
    then show ?thesis
      by (auto simp: copy_construct_def split: option.splits if_splits)
  next
    case later
    from later(1) obtain x where c: "construct_at (da, di) x h = Return () h1"
      by (auto simp: copy_construct_def split: option.splits if_splits)
    have raw: "di < length db \<longrightarrow> db ! di = None" using Suc.prems(3) by auto
    from construct_at_Return_raw[OF c Suc.prems(2) raw]
    have lt: "di < length db" and h1: "h1 = h\<lparr>mem := (mem h)(da := Some (db[di := Some x]))\<rparr>" by auto
    have b1: "block h1 da = Some (db[di := Some x])"
      unfolding h1 by (rule block_after_write[OF Suc.prems(2)])
    have "h2 = h1"
    proof (rule Suc.IH[OF later(2) b1])
      show "\<forall>j. Suc di \<le> j \<and> j < Suc di + n \<and> j < length (db[di := Some x]) \<longrightarrow> db[di := Some x] ! j = None"
        using Suc.prems(3) by auto
    qed
    with later(3) have d: "destroy_at (da, di) h1 = Return () h'" by simp
    from destroy_at_Return[OF d b1]
    have "h' = h1\<lparr>mem := (mem h1)(da := Some (db[di := Some x, di := None]))\<rparr>" by simp
    then have "h' = h\<lparr>mem := (mem h)(da := Some (db[di := None]))\<rparr>"
      unfolding h1 by simp
    moreover have "db[di := None] = db"
      using raw lt by (simp add: list_update_same_conv)
    ultimately show ?thesis
      using blockD[OF Suc.prems(2)] by (simp add: heap_restore)
  qed
qed

lemma uninitialized_copy_n_Return:
  assumes "uninitialized_copy_n T src n (da, di) h = Return () h'"
    and "block h da = Some db"
    and "\<forall>j. di \<le> j \<and> j < di + n \<and> j < length db \<longrightarrow> db ! j = None"
  shows "\<exists>db'. h' = h\<lparr>mem := (mem h)(da := Some db')\<rparr> \<and> length db' = length db \<and>
           (\<forall>j < length db. \<not> (di \<le> j \<and> j < di + n) \<longrightarrow> db' ! j = db ! j)"
  using assms
proof (induction n arbitrary: src di h db)
  case 0
  have "h = h\<lparr>mem := (mem h)(da := Some db)\<rparr>"
    using blockD[OF 0(2)] by (simp add: heap_restore)
  with 0(1) have "h' = h\<lparr>mem := (mem h)(da := Some db)\<rparr>" by simp
  then show ?case by blast
next
  case (Suc n)
  from Suc.prems(1) obtain h1 where
      c1: "copy_construct T src (da, di) h = Return () h1" and
      r: "uninitialized_copy_n T (ptr_add src 1) n (da, Suc di) h1 = Return () h'"
    by (auto simp: and_then_Return_iff on_throw_Return_iff)
  from c1 obtain x where c: "construct_at (da, di) x h = Return () h1"
    by (auto simp: copy_construct_def split: option.splits if_splits)
  have raw: "di < length db \<longrightarrow> db ! di = None" using Suc.prems(3) by auto
  from construct_at_Return_raw[OF c Suc.prems(2) raw]
  have lt: "di < length db" and h1: "h1 = h\<lparr>mem := (mem h)(da := Some (db[di := Some x]))\<rparr>" by auto
  have b1: "block h1 da = Some (db[di := Some x])"
    unfolding h1 by (rule block_after_write[OF Suc.prems(2)])
  have "\<exists>db'. h' = h1\<lparr>mem := (mem h1)(da := Some db')\<rparr> \<and> length db' = length (db[di := Some x]) \<and>
           (\<forall>j < length (db[di := Some x]). \<not> (Suc di \<le> j \<and> j < Suc di + n) \<longrightarrow> db' ! j = db[di := Some x] ! j)"
  proof (rule Suc.IH[OF r b1])
    show "\<forall>j. Suc di \<le> j \<and> j < Suc di + n \<and> j < length (db[di := Some x]) \<longrightarrow> db[di := Some x] ! j = None"
      using Suc.prems(3) by auto
  qed
  then obtain db' where db': "h' = h1\<lparr>mem := (mem h1)(da := Some db')\<rparr>" "length db' = length db"
      "\<forall>j < length db. \<not> (Suc di \<le> j \<and> j < Suc di + n) \<longrightarrow> db' ! j = db[di := Some x] ! j"
    by auto
  have "h' = h\<lparr>mem := (mem h)(da := Some db')\<rparr>"
    using db'(1) unfolding h1 by simp
  moreover have "\<forall>j < length db. \<not> (di \<le> j \<and> j < di + Suc n) \<longrightarrow> db' ! j = db ! j"
    using db'(3) by auto
  ultimately show ?case using db'(2) by blast
qed

lemma move_construct_nothrow:
  "nothrow_move_constructible T \<Longrightarrow> move_construct T src dst h \<noteq> Throw e h'"
  by (auto simp: move_construct_def and_then_Throw_iff split: option.splits)

lemma uninitialized_move_n_nothrow:
  "nothrow_move_constructible T \<Longrightarrow> uninitialized_move_n T src n dst h \<noteq> Throw e h'"
  by (induction n arbitrary: src dst h e h')
     (auto simp: and_then_Throw_iff on_throw_Throw_iff move_construct_nothrow)

lemma destroy_n_Return:
  assumes "destroy_n (a, i) n h = Return () h'" "block h a = Some b"
  shows "\<exists>b'. h' = h\<lparr>mem := (mem h)(a := Some b')\<rparr> \<and> length b' = length b \<and>
           (\<forall>j < length b. b' ! j = (if i \<le> j \<and> j < i + n then None else b ! j))"
  using assms
proof (induction n arbitrary: i h b)
  case 0
  have "h = h\<lparr>mem := (mem h)(a := Some b)\<rparr>"
    using blockD[OF 0(2)] by (simp add: heap_restore)
  with 0(1) have "h' = h\<lparr>mem := (mem h)(a := Some b)\<rparr>" by simp
  moreover have "\<forall>j < length b. b ! j = (if i \<le> j \<and> j < i + 0 then None else b ! j)" by auto
  ultimately show ?case by blast
next
  case (Suc n)
  from Suc.prems(1) obtain h1 where
      d: "destroy_at (a, i) h = Return () h1" and r: "destroy_n (a, Suc i) n h1 = Return () h'"
    by (auto simp: and_then_Return_iff)
  from destroy_at_Return[OF d Suc.prems(2)]
  have lt: "i < length b" and h1: "h1 = h\<lparr>mem := (mem h)(a := Some (b[i := None]))\<rparr>" by auto
  have b1: "block h1 a = Some (b[i := None])"
    unfolding h1 by (rule block_after_write[OF Suc.prems(2)])
  have "\<exists>b'. h' = h1\<lparr>mem := (mem h1)(a := Some b')\<rparr> \<and> length b' = length (b[i := None]) \<and>
           (\<forall>j < length (b[i := None]). b' ! j = (if Suc i \<le> j \<and> j < Suc i + n then None else b[i := None] ! j))"
    by (rule Suc.IH[OF r b1])
  then obtain b' where b': "h' = h1\<lparr>mem := (mem h1)(a := Some b')\<rparr>" "length b' = length b"
      "\<forall>j < length b. b' ! j = (if Suc i \<le> j \<and> j < Suc i + n then None else b[i := None] ! j)"
    by auto
  have "h' = h\<lparr>mem := (mem h)(a := Some b')\<rparr>"
    using b'(1) unfolding h1 by simp
  moreover have "\<forall>j < length b. b' ! j = (if i \<le> j \<and> j < i + Suc n then None else b ! j)"
    using b'(3) lt by (auto simp: nth_list_update)
  ultimately show ?case using b'(2) by blast
qed

section \<open>The strong guarantee of a growing insertion\<close>

lemma release_fresh:
  assumes "n \<le> avail h"
    and "hX = h\<lparr>mem := (mem h)(Suc (brk h) := Some bX), brk := Suc (brk h), avail := avail h - n\<rparr>"
    and "length bX = n" "\<forall>j < n. bX ! j = None"
    and "Deallocate (Suc (brk h)) hX = Return () h'"
  shows "(\<forall>a. block h' a = block h a) \<and> leaked h' = leaked h \<and> avail h' = avail h"
proof -
  have blk: "block hX (Suc (brk h)) = Some bX"
    unfolding assms(2) by (simp add: block_def)
  have clean: "filter (\<lambda>s. s \<noteq> None) bX = []"
    using assms(3,4) by (auto simp: filter_empty_conv in_set_conv_nth)
  from assms(5) blk
  have h': "h' = hX\<lparr>mem := (mem hX)(Suc (brk h) := None), avail := avail hX + length bX,
                     leaked := leaked hX + length (filter (\<lambda>s. s \<noteq> None) bX)\<rparr>"
    by (simp add: Deallocate_def)
  have "block h' a = block h a" for a
    unfolding h' assms(2) by (simp add: block_def)
  moreover have "leaked h' = leaked h"
    unfolding h' clean assms(2) by simp
  moreover have "avail h' = avail h"
    unfolding h' assms(2) using assms(1,3) by simp
  ultimately show ?thesis by blast
qed

lemma Emplace_grow_Throw_cases:
  assumes "\<not> size_m v < Capacity (data_m v)" "Emplace T pos args (v, h) = Throw e (v', h')"
  shows "Allocate T (if size_m v = 0 then 1 else size_m v * 2) h = Throw e h' \<or>
     (\<exists>N h1. Allocate T (if size_m v = 0 then 1 else size_m v * 2) h = Return N h1 \<and>
        Deallocate N h1 = Return () h') \<or>
     (\<exists>N h1 offset x h2 e0 h3 h4.
        Allocate T (if size_m v = 0 then 1 else size_m v * 2) h = Return N h1 \<and>
        construct_at (N, offset) x h1 = Return () h2 \<and>
        CopyData T (Vector_begin v) offset (N, 0) h2 = Throw e0 h3 \<and>
        destroy_at (N, offset) h3 = Return () h4 \<and>
        Deallocate N h4 = Return () h') \<or>
     (\<exists>N h1 offset x h2 h3 e0 h4 h5.
        Allocate T (if size_m v = 0 then 1 else size_m v * 2) h = Return N h1 \<and>
        construct_at (N, offset) x h1 = Return () h2 \<and>
        CopyData T (Vector_begin v) offset (N, 0) h2 = Return () h3 \<and>
        CopyData T (ptr_add (Vector_begin v) offset) (size_t_sub (size_m v) offset) (N, Suc offset) h3
          = Throw e0 h4 \<and>
        destroy_n (N, 0) (Suc offset) h4 = Return () h5 \<and>
        Deallocate N h5 = Return () h')"
  using assms
  by (auto simp: Emplace_def Let_def outcome_iffs RawMemory_new_def RawMemory_dtor_def RawMemory_plus_def
      GetAddress_def RawMemory_Swap_def ptr_add_def
      simp del: destroy_n.simps split: if_splits)

lemma elements_cong:
  "(\<forall>a. block h' a = block h a) \<Longrightarrow> elements h' v = elements h v"
  by (simp add: elements_def slots_def)

lemma Emplace_grow_Throw_unchanged:
  assumes T: "nothrow_move_constructible T \<or> copy_constructible T"
    and g: "\<not> size_m v < Capacity (data_m v)"
    and t: "Emplace T pos args (v, h) = Throw e (v', h')"
  shows "v' = v \<and> (\<forall>a. block h' a = block h a) \<and> leaked h' = leaked h \<and> avail h' = avail h"
proof -
  define cap where "cap = (if size_m v = 0 then 1 else size_m v * 2)"
  define k where "k = slots_granted T cap"
  let ?N = "Suc (brk h)"
  let ?F = "\<lambda>b. h\<lparr>mem := (mem h)(?N := Some b), brk := ?N, avail := avail h - k\<rparr>"
  let ?raw = "replicate k (None :: 'a option)"
  have cap: "cap \<noteq> 0" by (simp add: cap_def)
  have v: "v' = v" using t by (rule Emplace_Throw_this)
  have blkF: "block (?F b) ?N = Some b" for b by (simp add: block_def)
  have FF: "(?F b)\<lparr>mem := (mem (?F b))(?N := Some b')\<rparr> = ?F b'" for b b' by simp
  have copying: "CopyData T = uninitialized_copy_n T" if "\<not> nothrow_move_constructible T"
    using that T by (auto simp: CopyData_def fun_eq_iff)
  have moving: "CopyData T src n dst k \<noteq> Throw e1 k1" if "nothrow_move_constructible T" for src n dst k e1 k1
    using that by (simp add: CopyData_def uninitialized_move_n_nothrow)
  have fresh: "N = ?N \<and> k \<le> avail h \<and> h1 = ?F ?raw" if "Allocate T cap h = Return N h1" for N h1
    using Allocate_ReturnD[OF that cap] by (simp add: k_def)
  have element: "offset < k \<and> h2 = ?F (?raw[offset := Some x])"
    if "construct_at (?N, offset) x (?F ?raw) = Return () h2" for offset x h2
  proof -
    from construct_at_Return_raw[OF that blkF]
    have "offset < length ?raw" and
      "h2 = (?F ?raw)\<lparr>mem := (mem (?F ?raw))(?N := Some (?raw[offset := Some x]))\<rparr>" by auto
    then show ?thesis unfolding FF by simp
  qed
  have unchanged: "(\<forall>a. block h' a = block h a) \<and> leaked h' = leaked h \<and> avail h' = avail h"
    if "k \<le> avail h" "length bX = k" "\<forall>j < k. bX ! j = None" "Deallocate ?N (?F bX) = Return () h'"
    for bX
    using release_fresh[OF that(1) refl that(2,3,4)] .
  from Emplace_grow_Throw_cases[OF g t, folded cap_def] consider
      (alloc) "Allocate T cap h = Throw e h'"
    | (ctor) N h1 where "Allocate T cap h = Return N h1" "Deallocate N h1 = Return () h'"
    | (prefix) N h1 offset x h2 e0 h3 h4 where
        "Allocate T cap h = Return N h1"
        "construct_at (N, offset) x h1 = Return () h2"
        "CopyData T (Vector_begin v) offset (N, 0) h2 = Throw e0 h3"
        "destroy_at (N, offset) h3 = Return () h4"
        "Deallocate N h4 = Return () h'"
    | (suffix) N h1 offset x h2 h3 e0 h4 h5 where
        "Allocate T cap h = Return N h1"
        "construct_at (N, offset) x h1 = Return () h2"
        "CopyData T (Vector_begin v) offset (N, 0) h2 = Return () h3"
        "CopyData T (ptr_add (Vector_begin v) offset) (size_t_sub (size_m v) offset) (N, Suc offset) h3
           = Throw e0 h4"
        "destroy_n (N, 0) (Suc offset) h4 = Return () h5"
        "Deallocate N h5 = Return () h'"
    by blast
  then have "(\<forall>a. block h' a = block h a) \<and> leaked h' = leaked h \<and> avail h' = avail h"
  proof cases
    case alloc
    then show ?thesis using Allocate_ThrowD by blast
  next
    case ctor
    from fresh[OF ctor(1)] have N: "N = ?N" and av: "k \<le> avail h" and h1: "h1 = ?F ?raw" by auto
    show ?thesis
      by (rule unchanged[OF av _ _ ctor(2)[unfolded N h1]]) simp_all
  next
    case prefix
    from fresh[OF prefix(1)] have N: "N = ?N" and av: "k \<le> avail h" and h1: "h1 = ?F ?raw" by auto
    from element[OF prefix(2)[unfolded N h1]]
    have off: "offset < k" and h2: "h2 = ?F (?raw[offset := Some x])" by auto
    have nt: "\<not> nothrow_move_constructible T" using prefix(3) moving by blast
    have "h3 = h2"
    proof (rule uninitialized_copy_n_Throw)
      show "uninitialized_copy_n T (Vector_begin v) offset (?N, 0) h2 = Throw e0 h3"
        using prefix(3) copying[OF nt] N by simp
      show "block h2 ?N = Some (?raw[offset := Some x])" unfolding h2 by (rule blkF)
      show "\<forall>j. 0 \<le> j \<and> j < 0 + offset \<and> j < length (?raw[offset := Some x]) \<longrightarrow> ?raw[offset := Some x] ! j = None"
        by auto
    qed
    with prefix(4) N h2 have "destroy_at (?N, offset) (?F (?raw[offset := Some x])) = Return () h4" by simp
    from destroy_at_Return[OF this blkF]
    have "h4 = (?F (?raw[offset := Some x]))\<lparr>mem := (mem (?F (?raw[offset := Some x])))
                    (?N := Some (?raw[offset := Some x, offset := None]))\<rparr>" by blast
    then have h4: "h4 = ?F (?raw[offset := Some x, offset := None])" unfolding FF .
    show ?thesis
    proof (rule unchanged[OF av _ _ prefix(5)[unfolded N h4]])
      show "\<forall>j < k. ?raw[offset := Some x, offset := None] ! j = None"
        using off by (simp add: nth_list_update)
    qed simp
  next
    case suffix
    from fresh[OF suffix(1)] have N: "N = ?N" and av: "k \<le> avail h" and h1: "h1 = ?F ?raw" by auto
    from element[OF suffix(2)[unfolded N h1]]
    have off: "offset < k" and h2: "h2 = ?F (?raw[offset := Some x])" by auto
    have nt: "\<not> nothrow_move_constructible T" using suffix(4) moving by blast
    have "\<exists>b3. h3 = h2\<lparr>mem := (mem h2)(?N := Some b3)\<rparr> \<and> length b3 = length (?raw[offset := Some x]) \<and>
           (\<forall>j < length (?raw[offset := Some x]). \<not> (0 \<le> j \<and> j < 0 + offset) \<longrightarrow> b3 ! j = ?raw[offset := Some x] ! j)"
    proof (rule uninitialized_copy_n_Return)
      show "uninitialized_copy_n T (Vector_begin v) offset (?N, 0) h2 = Return () h3"
        using suffix(3) copying[OF nt] N by simp
      show "block h2 ?N = Some (?raw[offset := Some x])" unfolding h2 by (rule blkF)
      show "\<forall>j. 0 \<le> j \<and> j < 0 + offset \<and> j < length (?raw[offset := Some x]) \<longrightarrow> ?raw[offset := Some x] ! j = None"
        by auto
    qed
    then obtain b3 where h3': "h3 = h2\<lparr>mem := (mem h2)(?N := Some b3)\<rparr>"
        and l3': "length b3 = length (?raw[offset := Some x])"
        and b3': "\<forall>j < length (?raw[offset := Some x]). \<not> (0 \<le> j \<and> j < 0 + offset) \<longrightarrow>
                   b3 ! j = ?raw[offset := Some x] ! j"
      by blast
    have h3: "h3 = ?F b3" unfolding h3' h2 by (rule FF)
    have l3: "length b3 = k" using l3' by simp
    have b3: "\<forall>j < k. offset \<le> j \<longrightarrow> b3 ! j = ?raw[offset := Some x] ! j"
      using b3' by auto
    have "h4 = h3"
    proof (rule uninitialized_copy_n_Throw)
      show "uninitialized_copy_n T (ptr_add (Vector_begin v) offset) (size_t_sub (size_m v) offset)
              (?N, Suc offset) h3 = Throw e0 h4"
        using suffix(4) copying[OF nt] N by simp
      show "block h3 ?N = Some b3" unfolding h3 by (rule blkF)
      show "\<forall>j. Suc offset \<le> j \<and> j < Suc offset + size_t_sub (size_m v) offset \<and> j < length b3 \<longrightarrow> b3 ! j = None"
        using b3 l3 by (auto simp: nth_list_update)
    qed
    with suffix(5) N h3 have "destroy_n (?N, 0) (Suc offset) (?F b3) = Return () h5" by simp
    from destroy_n_Return[OF this blkF] obtain b5 where h5': "h5 = (?F b3)\<lparr>mem := (mem (?F b3))(?N := Some b5)\<rparr>"
        and l5': "length b5 = length b3"
        and b5': "\<forall>j < length b3. b5 ! j = (if 0 \<le> j \<and> j < 0 + Suc offset then None else b3 ! j)"
      by blast
    have h5: "h5 = ?F b5" unfolding h5' by (rule FF)
    have l5: "length b5 = k" using l5' l3 by simp
    have b5: "\<forall>j < k. b5 ! j = (if j < Suc offset then None else b3 ! j)"
      using b5' l3 by auto
    show ?thesis
    proof (rule unchanged[OF av l5 _ suffix(6)[unfolded N h5]])
      show "\<forall>j < k. b5 ! j = None"
        using b5 b3 by (auto simp: nth_list_update)
    qed
  qed
  with v show ?thesis by simp
qed

lemma Deallocate_Return_released:
  "Deallocate a h = Return () h' \<Longrightarrow> block h' a = None"
  by (auto simp: Deallocate_def block_def split: if_splits option.splits)

lemma Emplace_grow_Return_releases:
  assumes "\<not> size_m v < Capacity (data_m v)" "Emplace T pos args (v, h) = Return p (v', h')"
  shows "buffer_m (data_m v') = Suc (brk h) \<and> block h' (buffer_m (data_m v)) = None"
proof -
  from assms obtain N h1 hX where
      a: "Allocate T (if size_m v = 0 then 1 else size_m v * 2) h = Return N h1" and
      b: "buffer_m (data_m v') = N" and
      d: "Deallocate (buffer_m (data_m v)) hX = Return () h'"
    by (auto simp: Emplace_def Let_def outcome_iffs RawMemory_new_def RawMemory_dtor_def
        RawMemory_Swap_def simp del: destroy_n.simps)
  from Allocate_ReturnD[OF a] have "N = Suc (brk h)" by simp
  with b Deallocate_Return_released[OF d] show ?thesis by simp
qed

subsection \<open>What a returning call has done to the old storage\<close>

text \<open>
  A transfer into raw slots of another allocation loses no element, keeps the length
  of every allocation, and leaves the slots of the destination outside its range as
  they were.
\<close>

lemma slot_poke:
  "slot (poke h p x) q = (if q = p \<and> slot h p \<noteq> None then Some x else slot h q)"
  by (cases p; cases q)
     (auto simp: slot_def poke_def block_mem_upd nth_list_update dest: blockD split: option.splits)

lemma deref_poke:
  "deref (poke h p x) q = (if q = p \<and> slot h p \<noteq> None then x else deref h q)"
  by (auto simp: deref_def slot_poke split: option.splits)

lemma leaked_poke [simp]: "leaked (poke h p x) = leaked h"
  by (simp add: poke_def split: option.splits)

lemma block_length_poke:
  "map_option length (block (poke h p x) a) = map_option length (block h a)"
  by (auto simp: poke_def block_mem_upd dest: blockD split: option.splits)

lemma construct_at_Return_poke:
  "construct_at p x h = Return () h' \<Longrightarrow> deref h p = None \<Longrightarrow> h' = poke h p (Some x)"
  by (auto simp: construct_at_def deref_def split: option.splits)

lemma store_Return_poke: "store p x h = Return () h' \<Longrightarrow> h' = poke h p (Some x)"
  by (auto simp: store_def split: option.splits)

lemma destroy_at_Return_poke: "destroy_at p h = Return () h' \<Longrightarrow> h' = poke h p None"
  by (auto simp: destroy_at_def split: option.splits)

lemma destroy_n_leaked: "destroy_n p n h = Return () h' \<Longrightarrow> leaked h' = leaked h"
proof (induction n arbitrary: p h)
  case 0
  then show ?case by simp
next
  case (Suc n)
  from Suc.prems obtain h1 where d: "destroy_at p h = Return () h1"
      and r: "destroy_n (ptr_add p 1) n h1 = Return () h'"
    by (auto simp: and_then_Return_iff)
  from Suc.IH[OF r] destroy_at_Return_poke[OF d] show ?case by simp
qed

lemma transfer_step:
  assumes "copy_construct T (sa, si) (da, di) h = Return () h1 \<or>
           move_construct T (sa, si) (da, di) h = Return () h1"
    and "sa \<noteq> da" and "deref h (da, di) = None"
  shows "leaked h1 = leaked h \<and>
         (\<forall>a. map_option length (block h1 a) = map_option length (block h a)) \<and>
         (\<forall>j. j \<noteq> di \<longrightarrow> slot h1 (da, j) = slot h (da, j))"
  using assms(1)
proof
  assume "copy_construct T (sa, si) (da, di) h = Return () h1"
  then obtain x where "construct_at (da, di) x h = Return () h1"
    by (auto simp: copy_construct_def split: option.splits if_splits)
  from construct_at_Return_poke[OF this assms(3)] show ?thesis
    by (simp add: block_length_poke slot_poke)
next
  assume "move_construct T (sa, si) (da, di) h = Return () h1"
  then obtain x y h0 where c: "construct_at (da, di) x h = Return () h0"
      and s: "store (sa, si) y h0 = Return () h1"
    by (auto simp: move_construct_def and_then_Return_iff split: option.splits if_splits)
  from construct_at_Return_poke[OF c assms(3)] store_Return_poke[OF s]
  have "h1 = poke (poke h (da, di) (Some x)) (sa, si) (Some y)" by simp
  then show ?thesis using assms(2)
    by (simp add: block_length_poke slot_poke)
qed
lemma uninitialized_copy_n_frame:
  assumes "uninitialized_copy_n T (sa, si) n (da, di) h = Return () h'" and "sa \<noteq> da"
    and "\<forall>j. di \<le> j \<and> j < di + n \<longrightarrow> deref h (da, j) = None"
  shows "leaked h' = leaked h \<and>
         (\<forall>a. map_option length (block h' a) = map_option length (block h a)) \<and>
         (\<forall>j. \<not> (di \<le> j \<and> j < di + n) \<longrightarrow> slot h' (da, j) = slot h (da, j))"
  using assms
proof (induction n arbitrary: si di h)
  case 0
  then show ?case by simp
next
  case (Suc n)
  from Suc.prems(1) obtain h1 where c: "copy_construct T (sa, si) (da, di) h = Return () h1"
      and r: "uninitialized_copy_n T (sa, Suc si) n (da, Suc di) h1 = Return () h'"
    by (auto simp: and_then_Return_iff on_throw_Return_iff)
  have raw: "deref h (da, di) = None" using Suc.prems(3) by simp
  from transfer_step[OF disjI1[OF c] Suc.prems(2) raw]
  have s1: "leaked h1 = leaked h"
    and s2: "\<forall>a. map_option length (block h1 a) = map_option length (block h a)"
    and s3: "\<forall>j. j \<noteq> di \<longrightarrow> slot h1 (da, j) = slot h (da, j)" by blast+
  have pre: "\<forall>j. Suc di \<le> j \<and> j < Suc di + n \<longrightarrow> deref h1 (da, j) = None"
    using Suc.prems(3) s3 by (auto simp: deref_def)
  from Suc.IH[OF r Suc.prems(2) pre]
  have i1: "leaked h' = leaked h1"
    and i2: "\<forall>a. map_option length (block h' a) = map_option length (block h1 a)"
    and i3: "\<forall>j. \<not> (Suc di \<le> j \<and> j < Suc di + n) \<longrightarrow> slot h' (da, j) = slot h1 (da, j)" by blast+
  have "\<forall>j. \<not> (di \<le> j \<and> j < di + Suc n) \<longrightarrow> slot h' (da, j) = slot h (da, j)"
    using i3 s3 by auto
  with s1 s2 i1 i2 show ?case by simp
qed

lemma uninitialized_move_n_frame:
  assumes "uninitialized_move_n T (sa, si) n (da, di) h = Return () h'" and "sa \<noteq> da"
    and "\<forall>j. di \<le> j \<and> j < di + n \<longrightarrow> deref h (da, j) = None"
  shows "leaked h' = leaked h \<and>
         (\<forall>a. map_option length (block h' a) = map_option length (block h a)) \<and>
         (\<forall>j. \<not> (di \<le> j \<and> j < di + n) \<longrightarrow> slot h' (da, j) = slot h (da, j))"
  using assms
proof (induction n arbitrary: si di h)
  case 0
  then show ?case by simp
next
  case (Suc n)
  from Suc.prems(1) obtain h1 where c: "move_construct T (sa, si) (da, di) h = Return () h1"
      and r: "uninitialized_move_n T (sa, Suc si) n (da, Suc di) h1 = Return () h'"
    by (auto simp: and_then_Return_iff on_throw_Return_iff)
  have raw: "deref h (da, di) = None" using Suc.prems(3) by simp
  from transfer_step[OF disjI2[OF c] Suc.prems(2) raw]
  have s1: "leaked h1 = leaked h"
    and s2: "\<forall>a. map_option length (block h1 a) = map_option length (block h a)"
    and s3: "\<forall>j. j \<noteq> di \<longrightarrow> slot h1 (da, j) = slot h (da, j)" by blast+
  have pre: "\<forall>j. Suc di \<le> j \<and> j < Suc di + n \<longrightarrow> deref h1 (da, j) = None"
    using Suc.prems(3) s3 by (auto simp: deref_def)
  from Suc.IH[OF r Suc.prems(2) pre]
  have i1: "leaked h' = leaked h1"
    and i2: "\<forall>a. map_option length (block h' a) = map_option length (block h1 a)"
    and i3: "\<forall>j. \<not> (Suc di \<le> j \<and> j < Suc di + n) \<longrightarrow> slot h' (da, j) = slot h1 (da, j)" by blast+
  have "\<forall>j. \<not> (di \<le> j \<and> j < di + Suc n) \<longrightarrow> slot h' (da, j) = slot h (da, j)"
    using i3 s3 by auto
  with s1 s2 i1 i2 show ?case by simp
qed

lemma CopyData_frame:
  assumes "CopyData T (sa, si) n (da, di) h = Return () h'" and "sa \<noteq> da"
    and "\<forall>j. di \<le> j \<and> j < di + n \<longrightarrow> deref h (da, j) = None"
  shows "leaked h' = leaked h \<and>
         (\<forall>a. map_option length (block h' a) = map_option length (block h a)) \<and>
         (\<forall>j. \<not> (di \<le> j \<and> j < di + n) \<longrightarrow> slot h' (da, j) = slot h (da, j))"
proof (cases "nothrow_move_constructible T \<or> \<not> copy_constructible T")
  case True
  then have "uninitialized_move_n T (sa, si) n (da, di) h = Return () h'"
    using assms(1) by (simp add: CopyData_def)
  from uninitialized_move_n_frame[OF this assms(2,3)] show ?thesis .
next
  case False
  then have "uninitialized_copy_n T (sa, si) n (da, di) h = Return () h'"
    using assms(1) by (simp add: CopyData_def)
  from uninitialized_copy_n_frame[OF this assms(2,3)] show ?thesis .
qed

lemma Emplace_grow_Return_cases:
  assumes "\<not> size_m v < Capacity (data_m v)" "Emplace T pos args (v, h) = Return p (v', h')"
  shows "\<exists>N h1 offset x h2 h3 h4 h5.
        Allocate T (if size_m v = 0 then 1 else size_m v * 2) h = Return N h1 \<and>
        construct_at (N, offset) x h1 = Return () h2 \<and>
        CopyData T (buffer_m (data_m v), 0) offset (N, 0) h2 = Return () h3 \<and>
        CopyData T (buffer_m (data_m v), offset) (size_t_sub (size_m v) offset) (N, Suc offset) h3
          = Return () h4 \<and>
        destroy_n (buffer_m (data_m v), 0) (size_m v) h4 = Return () h5 \<and>
        Deallocate (buffer_m (data_m v)) h5 = Return () h'"
  using assms
  by (auto simp: Emplace_def Let_def outcome_iffs RawMemory_new_def RawMemory_dtor_def RawMemory_plus_def
      GetAddress_def Vector_begin_def RawMemory_Swap_def ptr_add_def
      simp del: destroy_n.simps split: if_splits; blast)

lemma elements_storage:
  assumes "elements h v = Some xs"
  shows "buffer_m (data_m v) = 0 \<or>
         (\<exists>b. block h (buffer_m (data_m v)) = Some b \<and> length b = capacity_m (data_m v) \<and>
               size_m v \<le> length b)"
proof -
  from assms obtain ss where ss: "slots h v = Some ss" "length ss = size_m v"
    by (auto simp: elements_def split: option.splits if_splits)
  then show ?thesis
    by (auto simp: slots_def split: option.splits if_splits)
qed

lemma Emplace_grow_Return_destroys:
  assumes g: "\<not> size_m v < Capacity (data_m v)"
    and el: "elements h v = Some xs"
    and r: "Emplace T pos args (v, h) = Return p (v', h')"
  shows "leaked h' = leaked h"
proof -
  define cap where "cap = (if size_m v = 0 then 1 else size_m v * 2)"
  define k where "k = slots_granted T cap"
  define old where "old = buffer_m (data_m v)"
  let ?N = "Suc (brk h)"
  have cap: "cap \<noteq> 0" by (simp add: cap_def)
  from Emplace_grow_Return_cases[OF g r, folded cap_def old_def] obtain N h1 offset x h2 h3 h4 h5 where
      al: "Allocate T cap h = Return N h1" and
      c: "construct_at (N, offset) x h1 = Return () h2" and
      p: "CopyData T (old, 0) offset (N, 0) h2 = Return () h3" and
      s: "CopyData T (old, offset) (size_t_sub (size_m v) offset) (N, Suc offset) h3 = Return () h4" and
      d: "destroy_n (old, 0) (size_m v) h4 = Return () h5" and
      f: "Deallocate old h5 = Return () h'"
    by blast
  from Allocate_ReturnD[OF al cap] have N: "N = ?N"
      and h1: "h1 = h\<lparr>mem := (mem h)(?N := Some (replicate k None)), brk := ?N, avail := avail h - k\<rparr>"
    by (simp_all add: k_def)
  from elements_storage[OF el] have st: "old = 0 \<or>
      (\<exists>b. block h old = Some b \<and> length b = capacity_m (data_m v) \<and> size_m v \<le> length b)"
    by (simp add: old_def)
  have ne: "old \<noteq> N" using st N by (auto dest: blockD)
  have l1: "leaked h1 = leaked h" unfolding h1 by simp
  have b1: "block h1 a = block h a" if "a \<noteq> ?N" for a
    using that unfolding h1 by (auto simp: block_def)
  have r1: "deref h1 (N, j) = None" for j
    unfolding h1 N by (simp add: deref_def slot_def block_def)
  from construct_at_Return_poke[OF c r1] have h2: "h2 = poke h1 (N, offset) (Some x)" .
  have l2: "leaked h2 = leaked h" unfolding h2 using l1 by simp
  have b2: "map_option length (block h2 a) = map_option length (block h1 a)" for a
    unfolding h2 by (rule block_length_poke)
  have r2: "deref h2 (N, j) = None" if "j \<noteq> offset" for j
    unfolding h2 using that r1 by (simp add: deref_poke)
  from CopyData_frame[OF p ne] r2
  have l3: "leaked h3 = leaked h2"
    and b3: "\<forall>a. map_option length (block h3 a) = map_option length (block h2 a)"
    and r3: "\<forall>j. \<not> (0 \<le> j \<and> j < 0 + offset) \<longrightarrow> slot h3 (N, j) = slot h2 (N, j)"
    by auto
  have pre: "\<forall>j. Suc offset \<le> j \<and> j < Suc offset + size_t_sub (size_m v) offset \<longrightarrow> deref h3 (N, j) = None"
  proof (intro allI impI)
    fix j assume j: "Suc offset \<le> j \<and> j < Suc offset + size_t_sub (size_m v) offset"
    then have "slot h3 (N, j) = slot h2 (N, j)" using r3 by auto
    then have "deref h3 (N, j) = deref h2 (N, j)" by (simp add: deref_def)
    with r2[of j] j show "deref h3 (N, j) = None" by simp
  qed
  from CopyData_frame[OF s ne pre]
  have l4: "leaked h4 = leaked h3"
    and b4: "\<forall>a. map_option length (block h4 a) = map_option length (block h3 a)"
    by auto
  have l5: "leaked h5 = leaked h" using destroy_n_leaked[OF d] l4 l3 l2 by simp
  show ?thesis
  proof (cases "old = 0")
    case True
    with f have "h' = h5" by (simp add: Deallocate_def)
    with l5 show ?thesis by simp
  next
    case False
    with st obtain b where b: "block h old = Some b" "length b = capacity_m (data_m v)"
        "size_m v \<le> length b" by blast
    have full: "length b = size_m v" using b(2,3) g by (simp add: Capacity_def)
    have "map_option length (block h4 old) = map_option length (block h old)"
      using b4 b3 b2 b1[of old] ne N by simp
    then obtain b4' where blk4: "block h4 old = Some b4'" and len4: "length b4' = size_m v"
      using b(1) full by auto
    from destroy_n_Return[OF d blk4] obtain b5 where
        h5: "h5 = h4\<lparr>mem := (mem h4)(old := Some b5)\<rparr>" and len5: "length b5 = length b4'" and
        c5: "\<forall>j < length b4'. b5 ! j = (if 0 \<le> j \<and> j < 0 + size_m v then None else b4' ! j)"
      by blast
    have blk5: "block h5 old = Some b5" unfolding h5 by (rule block_after_write[OF blk4])
    have clean: "filter (\<lambda>s. s \<noteq> None) b5 = []"
      using c5 len5 len4 by (auto simp: filter_empty_conv in_set_conv_nth)
    from f blk5 False
    have "h' = h5\<lparr>mem := (mem h5)(old := None), avail := avail h5 + length b5,
                   leaked := leaked h5 + length (filter (\<lambda>s. s \<noteq> None) b5)\<rparr>"
      by (simp add: Deallocate_def)
    then have "leaked h' = leaked h5" unfolding clean by simp
    with l5 show ?thesis by simp
  qed
qed

text \<open>
  Claim C4, as amended. Let the element type be nothrow-move-constructible or
  copy-constructible, and let \<open>Emplace\<close> (or \<open>Insert\<close>) find the capacity exhausted. If
  the call leaves by an exception, whether the allocation, the construction of the new
  element or the transfer of the prefix or of the suffix failed, then the vector's
  members are what they were, every allocation holds what it held (so the vector's
  elements are unchanged and none of them has been destroyed), no element of the new
  storage is left undestroyed, and the new storage is released. Only when all transfers
  have succeeded and the call returns are the old elements destroyed and the old
  storage released: then, for any element type, the vector has the new storage, the
  old storage is no longer allocated, and every element it held has been destroyed
  before the release, so that the count of undestroyed elements is what it was.
\<close>

theorem Emplace_strong_guarantee:
  "((nothrow_move_constructible T \<or> copy_constructible T) \<and> \<not> size_m v < Capacity (data_m v) \<and>
      Emplace T pos args (v, h) = Throw e (v', h')
    \<longrightarrow> v' = v \<and> (\<forall>a. block h' a = block h a) \<and> leaked h' = leaked h \<and> avail h' = avail h \<and>
        elements h' v' = elements h v) \<and>
   ((nothrow_move_constructible T \<or> copy_constructible T) \<and> \<not> size_m v < Capacity (data_m v) \<and>
      Insert T pos x (v, h) = Throw e (v', h')
    \<longrightarrow> v' = v \<and> (\<forall>a. block h' a = block h a) \<and> leaked h' = leaked h \<and> avail h' = avail h \<and>
        elements h' v' = elements h v) \<and>
   ((nothrow_move_constructible T \<or> copy_constructible T) \<and> \<not> size_m v < Capacity (data_m v) \<and>
      Insert_rvalue T pos x (v, h) = Throw e (v', h')
    \<longrightarrow> v' = v \<and> (\<forall>a. block h' a = block h a) \<and> leaked h' = leaked h \<and> avail h' = avail h \<and>
        elements h' v' = elements h v) \<and>
   (\<not> size_m v < Capacity (data_m v) \<and> Emplace T pos args (v, h) = Return p (v', h')
    \<longrightarrow> buffer_m (data_m v') = Suc (brk h) \<and> block h' (buffer_m (data_m v)) = None) \<and>
   (\<not> size_m v < Capacity (data_m v) \<and> elements h v \<noteq> None \<and>
      Emplace T pos args (v, h) = Return p (v', h')
    \<longrightarrow> leaked h' = leaked h)"
proof -
  have E: "v' = v \<and> (\<forall>a. block h' a = block h a) \<and> leaked h' = leaked h \<and> avail h' = avail h \<and>
        elements h' v' = elements h v"
    if "(nothrow_move_constructible T \<or> copy_constructible T) \<and> \<not> size_m v < Capacity (data_m v) \<and>
        Emplace T pos a (v, h) = Throw e (v', h')" for a
  proof -
    from that have u: "v' = v \<and> (\<forall>a. block h' a = block h a) \<and> leaked h' = leaked h \<and> avail h' = avail h"
      using Emplace_grow_Throw_unchanged[of T v pos a h e v' h'] by blast
    then have "elements h' v' = elements h v" using elements_cong[of h' h v] by simp
    with u show ?thesis by simp
  qed
  have R: "buffer_m (data_m v') = Suc (brk h) \<and> block h' (buffer_m (data_m v)) = None"
    if "\<not> size_m v < Capacity (data_m v) \<and> Emplace T pos args (v, h) = Return p (v', h')"
    using that Emplace_grow_Return_releases[of v T pos args h p v' h'] by blast
  have D: "leaked h' = leaked h"
    if "\<not> size_m v < Capacity (data_m v) \<and> elements h v \<noteq> None \<and>
        Emplace T pos args (v, h) = Return p (v', h')"
  proof -
    from that obtain xs where "elements h v = Some xs" by auto
    with that show ?thesis
      using Emplace_grow_Return_destroys[of v h xs T pos args p v' h'] by blast
  qed
  show ?thesis
    unfolding Insert_def Insert_rvalue_def
    by (rule conjI, rule impI, erule E, rule conjI, rule impI, erule E,
        rule conjI, rule impI, erule E, rule conjI, rule impI, erule R, rule impI, erule D)
qed

theorem Emplace_strong_guarantee_witness:
  "(nothrow_move_constructible copy_throws_13 \<or> copy_constructible copy_throws_13) \<and>
   \<not> size_m (vec 1 3 3) < Capacity (data_m (vec 1 3 3)) \<and>
   elements (heap1 [Some 5, Some 6, Some 13]) (vec 1 3 3) = Some [5, 6, 13 :: int] \<and>
   (\<exists>e v' h'. Insert copy_throws_13 (1, 1) 9 (vec 1 3 3, heap1 [Some 5, Some 6, Some 13]) = Throw e (v', h') \<and>
      v' = vec 1 3 3 \<and> elements h' v' = Some [5, 6, 13] \<and> leaked h' = 0 \<and> block h' 2 = None) \<and>
   elements (heap1 [Some 5, Some 6]) (vec 1 2 2) = Some [5, 6 :: int] \<and>
   (\<exists>p v' h'. Emplace plain (1, 1) (Some 9) (vec 1 2 2, heap1 [Some 5, Some 6]) = Return p (v', h') \<and>
      buffer_m (data_m v') = 2 \<and> block h' 1 = None \<and> leaked h' = 0 \<and> elements h' v' = Some [5, 9, 6])"
proof -
  let ?v = "vec 1 3 3" and ?K = "heap1 [Some 5, Some 6, Some (13 :: int)]"
  have T: "nothrow_move_constructible copy_throws_13 \<or> copy_constructible copy_throws_13"
    by (simp add: copy_throws_13_def)
  have g: "\<not> size_m ?v < Capacity (data_m ?v)"
    by (simp add: vec_def Capacity_def)
  have el: "elements ?K ?v = Some [5, 6, 13]" and lk: "leaked ?K = 0" and b2: "block ?K 2 = None"
    by code_simp+
  have "thrown (Insert copy_throws_13 (1, 1) 9 (?v, ?K)) \<noteq> None" by code_simp
  then obtain s where "thrown (Insert copy_throws_13 (1, 1) 9 (?v, ?K)) = Some s" by blast
  then obtain e where t: "Insert copy_throws_13 (1, 1) 9 (?v, ?K) = Throw e (fst s, snd s)"
    by (auto dest: thrown_SomeD)
  have "fst s = ?v \<and> (\<forall>a. block (snd s) a = block ?K a) \<and> leaked (snd s) = leaked ?K \<and>
        avail (snd s) = avail ?K \<and> elements (snd s) (fst s) = elements ?K ?v"
    by (rule Emplace_strong_guarantee[where T = copy_throws_13 and v = ?v and pos = "(1, 1)" and x = 9
          and h = ?K and e = e and v' = "fst s" and h' = "snd s",
          THEN conjunct2, THEN conjunct1, rule_format])
       (intro conjI T g t)
  then have f1: "fst s = ?v" and f2: "\<forall>a. block (snd s) a = block ?K a"
      and f3: "leaked (snd s) = leaked ?K" and f5: "elements (snd s) (fst s) = elements ?K ?v"
    by blast+
  have "elements (snd s) (fst s) = Some [5, 6, 13]" using f5 el by simp
  moreover have "leaked (snd s) = 0" using f3 lk by simp
  moreover have "block (snd s) 2 = None" using f2 b2 by simp
  ultimately have "fst s = ?v \<and> elements (snd s) (fst s) = Some [5, 6, 13] \<and> leaked (snd s) = 0 \<and>
      block (snd s) 2 = None"
    using f1 by blast
  with t have thrown_case: "\<exists>e v' h'. Insert copy_throws_13 (1, 1) 9 (?v, ?K) = Throw e (v', h') \<and>
      v' = ?v \<and> elements h' v' = Some [5, 6, 13] \<and> leaked h' = 0 \<and> block h' 2 = None"
    by blast
  let ?w = "vec 1 2 2" and ?L = "heap1 [Some 5, Some (6 :: int)]"
  have gw: "\<not> size_m ?w < Capacity (data_m ?w)"
    by (simp add: vec_def Capacity_def)
  have elw: "elements ?L ?w = Some [5, 6]" and lkw: "leaked ?L = 0" and bw: "Suc (brk ?L) = 2"
      and ow: "buffer_m (data_m ?w) = 1"
    by code_simp+
  have new: "map_option elements_of (returned (Emplace plain (1, 1) (Some 9) (?w, ?L))) = Some (Some [5, 9, 6])"
    by code_simp
  then obtain r where "returned (Emplace plain (1, 1) (Some 9) (?w, ?L)) = Some r"
      and er: "elements (snd r) (fst r) = Some [5, 9, 6]"
    by (auto simp: elements_of_def)
  then obtain p where ret: "Emplace plain (1, 1) (Some 9) (?w, ?L) = Return p (fst r, snd r)"
    by (auto dest: returned_SomeD)
  have "buffer_m (data_m (fst r)) = Suc (brk ?L) \<and> block (snd r) (buffer_m (data_m ?w)) = None"
    by (rule Emplace_strong_guarantee[where T = plain and v = ?w and pos = "(1, 1)" and args = "Some 9"
          and h = ?L and p = p and v' = "fst r" and h' = "snd r",
          THEN conjunct2, THEN conjunct2, THEN conjunct2, THEN conjunct1, rule_format])
       (intro conjI gw ret)
  then have r1: "buffer_m (data_m (fst r)) = 2" and r2: "block (snd r) 1 = None"
    using bw ow by simp_all
  have elw': "elements ?L ?w \<noteq> None" using elw by simp
  have "leaked (snd r) = leaked ?L"
    by (rule Emplace_strong_guarantee[where T = plain and v = ?w and pos = "(1, 1)" and args = "Some 9"
          and h = ?L and p = p and v' = "fst r" and h' = "snd r",
          THEN conjunct2, THEN conjunct2, THEN conjunct2, THEN conjunct2, rule_format])
       (intro conjI gw elw' ret)
  then have r3: "leaked (snd r) = 0" using lkw by simp
  from ret r1 r2 r3 er
  have returned_case: "\<exists>p v' h'. Emplace plain (1, 1) (Some 9) (?w, ?L) = Return p (v', h') \<and>
      buffer_m (data_m v') = 2 \<and> block h' 1 = None \<and> leaked h' = 0 \<and> elements h' v' = Some [5, 9, 6]"
    by blast
  show ?thesis using T g el thrown_case elw returned_case by (intro conjI)
qed

text \<open>
  The claim as stated fails for an element type that cannot be copied and whose move
  constructor may throw: \<open>CopyData\<close> moves its elements, and when the move of \<open>13\<close>
  throws in the suffix, the elements \<open>5\<close> and \<open>6\<close> of the original have already been
  moved from.
\<close>

theorem Emplace_move_only_throw_changes_original:
  "\<not> size_m (vec 1 3 3) < Capacity (data_m (vec 1 3 3)) \<and>
   elements (heap1 [Some 5, Some 6, Some 13]) (vec 1 3 3) = Some [5, 6, 13 :: int] \<and>
   map_option elements_of
     (thrown (Insert_rvalue move_only_throws_13 (1, 1) 9 (vec 1 3 3, heap1 [Some 5, Some 6, Some 13])))
     = Some (Some [0, 0, 13])"
  by code_simp

section \<open>What Erase leaves when it returns\<close>

lemma store_Return:
  assumes "store (a, i) x h = Return () h'" "block h a = Some b"
  shows "i < length b \<and> h' = h\<lparr>mem := (mem h)(a := Some (b[i := Some x]))\<rparr>"
  using assms by (auto simp: store_def slot_block poke_block split: if_splits option.splits)

lemma deref_Some:
  assumes "deref h (a, i) = Some x" "block h a = Some b"
  shows "i < length b \<and> b ! i = Some x"
  using assms by (auto simp: deref_def slot_block split: if_splits option.splits)

lemma move_assign_Return_same:
  assumes "move_assign T (a, s) (a, d) h = Return () h'" "block h a = Some b"
  shows "\<exists>x. s < length b \<and> d < length b \<and> b ! s = Some x \<and>
           h' = h\<lparr>mem := (mem h)(a := Some (b[d := Some x, s := Some (moved_from T x)]))\<rparr>"
proof -
  from assms(1) obtain x h0 where x: "deref h (a, s) = Some x"
      and s1: "store (a, d) x h = Return () h0" and s2: "store (a, s) (moved_from T x) h0 = Return () h'"
    by (auto simp: move_assign_def and_then_Return_iff split: option.splits if_splits)
  from deref_Some[OF x assms(2)] have sl: "s < length b" "b ! s = Some x" by auto
  from store_Return[OF s1 assms(2)]
  have dl: "d < length b" and h0: "h0 = h\<lparr>mem := (mem h)(a := Some (b[d := Some x]))\<rparr>" by auto
  have b0: "block h0 a = Some (b[d := Some x])"
    unfolding h0 by (rule block_after_write[OF assms(2)])
  from store_Return[OF s2 b0]
  have "h' = h0\<lparr>mem := (mem h0)(a := Some (b[d := Some x, s := Some (moved_from T x)]))\<rparr>" by simp
  then have "h' = h\<lparr>mem := (mem h)(a := Some (b[d := Some x, s := Some (moved_from T x)]))\<rparr>"
    unfolding h0 by simp
  with sl dl show ?thesis by blast
qed

lemma copy_assign_Return_same:
  assumes "copy_assign T (a, s) (a, d) h = Return () h'" "block h a = Some b"
  shows "\<exists>x. s < length b \<and> d < length b \<and> b ! s = Some x \<and>
           h' = h\<lparr>mem := (mem h)(a := Some (b[d := Some x]))\<rparr>"
proof -
  from assms(1) obtain x where x: "deref h (a, s) = Some x" and s1: "store (a, d) x h = Return () h'"
    by (auto simp: copy_assign_def split: option.splits if_splits)
  from deref_Some[OF x assms(2)] store_Return[OF s1 assms(2)] show ?thesis by blast
qed

text \<open>
  Moving, or copying, the \<open>n\<close> slots behind slot \<open>i\<close> one slot to the left, within one
  allocation: slot \<open>j\<close> of the range receives what slot \<open>j + 1\<close> held. A move leaves
  the last source slot in its moved-from state; the slots in between were moved from
  and then assigned to.
\<close>

lemma move_n_left_Return:
  assumes "move_n T (a, Suc i) n (a, i) h = Return () h'" "block h a = Some b"
  shows "\<exists>b'. h' = h\<lparr>mem := (mem h)(a := Some b')\<rparr> \<and> length b' = length b \<and>
           (\<forall>j < length b. b' ! j =
              (if i \<le> j \<and> j < i + n then b ! Suc j
               else if j = i + n \<and> 0 < n then map_option (moved_from T) (b ! j)
               else b ! j))"
  using assms
proof (induction n arbitrary: i h b)
  case 0
  have "h = h\<lparr>mem := (mem h)(a := Some b)\<rparr>"
    using blockD[OF 0(2)] by (simp add: heap_restore)
  with 0(1) have "h' = h\<lparr>mem := (mem h)(a := Some b)\<rparr>" by simp
  moreover have "\<forall>j < length b. b ! j =
              (if i \<le> j \<and> j < i + 0 then b ! Suc j
               else if j = i + 0 \<and> 0 < (0::nat) then map_option (moved_from T) (b ! j)
               else b ! j)" by auto
  ultimately show ?case by blast
next
  case (Suc n)
  from Suc.prems(1) obtain h1 where
      m: "move_assign T (a, Suc i) (a, i) h = Return () h1" and
      r: "move_n T (a, Suc (Suc i)) n (a, Suc i) h1 = Return () h'"
    by (auto simp: and_then_Return_iff)
  from move_assign_Return_same[OF m Suc.prems(2)] obtain x where
      sl: "Suc i < length b" and bs: "b ! Suc i = Some x" and
      h1: "h1 = h\<lparr>mem := (mem h)(a := Some (b[i := Some x, Suc i := Some (moved_from T x)]))\<rparr>"
    by blast
  let ?b1 = "b[i := Some x, Suc i := Some (moved_from T x)]"
  have b1: "block h1 a = Some ?b1"
    unfolding h1 by (rule block_after_write[OF Suc.prems(2)])
  have "\<exists>b'. h' = h1\<lparr>mem := (mem h1)(a := Some b')\<rparr> \<and> length b' = length ?b1 \<and>
           (\<forall>j < length ?b1. b' ! j =
              (if Suc i \<le> j \<and> j < Suc i + n then ?b1 ! Suc j
               else if j = Suc i + n \<and> 0 < n then map_option (moved_from T) (?b1 ! j)
               else ?b1 ! j))"
    by (rule Suc.IH[OF r b1])
  then obtain b' where h': "h' = h1\<lparr>mem := (mem h1)(a := Some b')\<rparr>" and l: "length b' = length b"
      and n: "\<forall>j < length b. b' ! j =
              (if Suc i \<le> j \<and> j < Suc i + n then ?b1 ! Suc j
               else if j = Suc i + n \<and> 0 < n then map_option (moved_from T) (?b1 ! j)
               else ?b1 ! j)"
    by auto
  have "h' = h\<lparr>mem := (mem h)(a := Some b')\<rparr>"
    using h' unfolding h1 by simp
  moreover have "\<forall>j < length b. b' ! j =
              (if i \<le> j \<and> j < i + Suc n then b ! Suc j
               else if j = i + Suc n \<and> 0 < Suc n then map_option (moved_from T) (b ! j)
               else b ! j)"
  proof (intro allI impI)
    fix j assume j: "j < length b"
    consider "j < i" | "j = i" | "Suc i \<le> j \<and> j < Suc i + n" | "j = Suc i + n" | "Suc i + n < j"
      by linarith
    then show "b' ! j =
              (if i \<le> j \<and> j < i + Suc n then b ! Suc j
               else if j = i + Suc n \<and> 0 < Suc n then map_option (moved_from T) (b ! j)
               else b ! j)"
    proof cases
      case 1
      then show ?thesis using n j by simp
    next
      case 2
      then show ?thesis using n j sl bs by simp
    next
      case 3
      then show ?thesis using n j by simp
    next
      case 4
      then show ?thesis using n j sl bs by (cases "n = 0") simp_all
    next
      case 5
      then show ?thesis using n j by simp
    qed
  qed
  ultimately show ?case using l by blast
qed

lemma copy_n_left_Return:
  assumes "copy_n T (a, Suc i) n (a, i) h = Return () h'" "block h a = Some b"
  shows "\<exists>b'. h' = h\<lparr>mem := (mem h)(a := Some b')\<rparr> \<and> length b' = length b \<and>
           (\<forall>j < length b. b' ! j = (if i \<le> j \<and> j < i + n then b ! Suc j else b ! j))"
  using assms
proof (induction n arbitrary: i h b)
  case 0
  have "h = h\<lparr>mem := (mem h)(a := Some b)\<rparr>"
    using blockD[OF 0(2)] by (simp add: heap_restore)
  with 0(1) have "h' = h\<lparr>mem := (mem h)(a := Some b)\<rparr>" by simp
  moreover have "\<forall>j < length b. b ! j = (if i \<le> j \<and> j < i + 0 then b ! Suc j else b ! j)" by auto
  ultimately show ?case by blast
next
  case (Suc n)
  from Suc.prems(1) obtain h1 where
      m: "copy_assign T (a, Suc i) (a, i) h = Return () h1" and
      r: "copy_n T (a, Suc (Suc i)) n (a, Suc i) h1 = Return () h'"
    by (auto simp: and_then_Return_iff)
  from copy_assign_Return_same[OF m Suc.prems(2)] obtain x where
      sl: "Suc i < length b" and bs: "b ! Suc i = Some x" and
      h1: "h1 = h\<lparr>mem := (mem h)(a := Some (b[i := Some x]))\<rparr>"
    by blast
  let ?b1 = "b[i := Some x]"
  have b1: "block h1 a = Some ?b1"
    unfolding h1 by (rule block_after_write[OF Suc.prems(2)])
  have "\<exists>b'. h' = h1\<lparr>mem := (mem h1)(a := Some b')\<rparr> \<and> length b' = length ?b1 \<and>
           (\<forall>j < length ?b1. b' ! j = (if Suc i \<le> j \<and> j < Suc i + n then ?b1 ! Suc j else ?b1 ! j))"
    by (rule Suc.IH[OF r b1])
  then obtain b' where h': "h' = h1\<lparr>mem := (mem h1)(a := Some b')\<rparr>" and l: "length b' = length b"
      and n: "\<forall>j < length b. b' ! j = (if Suc i \<le> j \<and> j < Suc i + n then ?b1 ! Suc j else ?b1 ! j)"
    by auto
  have "h' = h\<lparr>mem := (mem h)(a := Some b')\<rparr>"
    using h' unfolding h1 by simp
  moreover have "\<forall>j < length b. b' ! j = (if i \<le> j \<and> j < i + Suc n then b ! Suc j else b ! j)"
    using n sl bs by (auto simp: nth_list_update)
  ultimately show ?case using l by blast
qed

lemma Erase_Return_steps:
  assumes "Erase T pos (v, h) = Return p (v', h')"
  shows "\<exists>i h0. pos = (buffer_m (data_m v), i) \<and> Suc i \<le> size_m v \<and> i < capacity_m (data_m v) \<and>
           p = pos \<and> v' = \<lparr>data_m = data_m v, size_m = size_m v - 1\<rparr> \<and>
           destroy_at pos h = Return () h0 \<and>
           (move_n T (buffer_m (data_m v), Suc i) (size_m v - Suc i) (buffer_m (data_m v), i) h0 = Return () h' \<or>
            copy_n T (buffer_m (data_m v), Suc i) (size_m v - Suc i) (buffer_m (data_m v), i) h0 = Return () h')"
proof -
  obtain a i where pos: "pos = (a, i)" by (cases pos)
  from assms have a: "a = buffer_m (data_m v)"
    by (auto simp: Erase_def Let_def outcome_iffs pos ptr_diff_def Vector_begin_def GetAddress_def
        split: if_splits)
  from assms obtain h0 where d: "destroy_at pos h = Return () h0"
    by (auto simp: Erase_def Let_def outcome_iffs)
  have o: "ptr_diff pos (Vector_begin v) = Some i"
    using a by (simp add: pos ptr_diff_def Vector_begin_def GetAddress_def)
  have e: "Vector_end v = (a, size_m v)"
    using a by (simp add: Vector_end_def GetAddress_def)
  from assms d o have
    "Suc i \<le> size_m v \<and> i < capacity_m (data_m v) \<and> p = pos \<and>
     v' = \<lparr>data_m = data_m v, size_m = size_m v - 1\<rparr> \<and>
     (move_n T (a, Suc i) (size_m v - Suc i) (a, i) h0 = Return () h' \<or>
      copy_n T (a, Suc i) (size_m v - Suc i) (a, i) h0 = Return () h')"
    by (auto simp: Erase_def Let_def outcome_iffs e pos a[symmetric] RawMemory_at_def std_move_def std_copy_def
        ptr_diff_def size_t_sub_def split: if_splits option.splits)
  with d pos a show ?thesis by blast
qed

lemma elements_SomeD:
  assumes "elements h v = Some xs" "0 < size_m v"
  shows "\<exists>b. block h (buffer_m (data_m v)) = Some b \<and> length b = capacity_m (data_m v) \<and>
           size_m v \<le> length b \<and> length xs = size_m v \<and> (\<forall>j < size_m v. b ! j = Some (xs ! j))"
proof -
  from assms obtain ss where ss: "slots h v = Some ss" "length ss = size_m v"
      "list_all (\<lambda>x. x \<noteq> None) ss" "xs = map the ss"
    by (auto simp: elements_def split: option.splits if_splits)
  from ss(1,2) assms(2) obtain b where b: "block h (buffer_m (data_m v)) = Some b"
      "length b = capacity_m (data_m v)" "ss = take (size_m v) b"
    by (auto simp: slots_def split: option.splits if_splits)
  have le: "size_m v \<le> length b" using ss(2) b(3) by simp
  have "\<forall>j < size_m v. b ! j = Some (xs ! j)"
  proof (intro allI impI)
    fix j assume j: "j < size_m v"
    then have "ss ! j = b ! j" using b(3) by simp
    moreover have "ss ! j \<noteq> None" using ss(2,3) j by (simp add: list_all_length)
    ultimately show "b ! j = Some (xs ! j)" using ss(2,4) j by auto
  qed
  with b le ss show ?thesis by auto
qed

lemma elements_SomeI:
  assumes "block h (buffer_m (data_m v)) = Some b" "length b = capacity_m (data_m v)"
    "size_m v \<le> length b" "length ys = size_m v" "\<forall>j < size_m v. b ! j = Some (ys ! j)"
  shows "elements h v = Some ys"
proof -
  have nz: "buffer_m (data_m v) \<noteq> 0"
    using blockD[OF assms(1)] by simp
  then have s: "slots h v = Some (take (size_m v) b)"
    using assms(1,2) by (simp add: slots_def)
  have l: "list_all (\<lambda>x. x \<noteq> None) (take (size_m v) b)"
    using assms(3,5) by (simp add: list_all_length)
  have "map the (take (size_m v) b) = ys"
    using assms(3,4,5) by (simp add: list_eq_iff_nth_eq)
  with s l assms(3) show ?thesis by (simp add: elements_def)
qed

text \<open>
  Whenever \<open>Erase\<close> returns, from a vector whose live range holds \<open>xs\<close>, the position was
  valid, the storage is the one it was (nothing was reallocated), and the vector holds
  \<open>xs\<close> without the element at the position.
\<close>

lemma Erase_Return_removes:
  assumes r: "Erase T pos (v, h) = Return p (v', h')" and e: "elements h v = Some xs"
  shows "\<exists>i. pos = (buffer_m (data_m v), i) \<and> i < length xs \<and> p = pos \<and> data_m v' = data_m v \<and>
           Size v' = length xs - 1 \<and> elements h' v' = Some (take i xs @ drop (Suc i) xs)"
proof -
  let ?a = "buffer_m (data_m v)"
  from Erase_Return_steps[OF r] obtain i h0 where
      pos: "pos = (?a, i)" and i: "Suc i \<le> size_m v" and p: "p = pos"
      and v': "v' = \<lparr>data_m = data_m v, size_m = size_m v - 1\<rparr>"
      and d: "destroy_at (?a, i) h = Return () h0"
      and m: "move_n T (?a, Suc i) (size_m v - Suc i) (?a, i) h0 = Return () h' \<or>
              copy_n T (?a, Suc i) (size_m v - Suc i) (?a, i) h0 = Return () h'"
    by auto
  from elements_SomeD[OF e] i obtain b where b: "block h ?a = Some b" and cap: "length b = capacity_m (data_m v)"
      and le: "size_m v \<le> length b" and lx: "length xs = size_m v" and live: "\<forall>j < size_m v. b ! j = Some (xs ! j)"
    by auto
  let ?b0 = "b[i := None]"
  from destroy_at_Return[OF d b] have h0: "h0 = h\<lparr>mem := (mem h)(?a := Some ?b0)\<rparr>" by simp
  have b0: "block h0 ?a = Some ?b0"
    unfolding h0 by (rule block_after_write[OF b])
  have "\<exists>b'. h' = h0\<lparr>mem := (mem h0)(?a := Some b')\<rparr> \<and> length b' = length b \<and>
          (\<forall>j < size_m v - 1. b' ! j = (if j < i then b ! j else b ! Suc j))"
  proof -
    from m show ?thesis
    proof
      assume "move_n T (?a, Suc i) (size_m v - Suc i) (?a, i) h0 = Return () h'"
      from move_n_left_Return[OF this b0] obtain b' where
          "h' = h0\<lparr>mem := (mem h0)(?a := Some b')\<rparr>" "length b' = length b"
          "\<forall>j < length b. b' ! j =
              (if i \<le> j \<and> j < i + (size_m v - Suc i) then ?b0 ! Suc j
               else if j = i + (size_m v - Suc i) \<and> 0 < size_m v - Suc i then map_option (moved_from T) (?b0 ! j)
               else ?b0 ! j)"
        by auto
      moreover from this(3) i le have "\<forall>j < size_m v - 1. b' ! j = (if j < i then b ! j else b ! Suc j)"
        by auto
      ultimately show ?thesis by blast
    next
      assume "copy_n T (?a, Suc i) (size_m v - Suc i) (?a, i) h0 = Return () h'"
      from copy_n_left_Return[OF this b0] obtain b' where
          "h' = h0\<lparr>mem := (mem h0)(?a := Some b')\<rparr>" "length b' = length b"
          "\<forall>j < length b. b' ! j = (if i \<le> j \<and> j < i + (size_m v - Suc i) then ?b0 ! Suc j else ?b0 ! j)"
        by auto
      moreover from this(3) i le have "\<forall>j < size_m v - 1. b' ! j = (if j < i then b ! j else b ! Suc j)"
        by auto
      ultimately show ?thesis by blast
    qed
  qed
  then obtain b' where h': "h' = h0\<lparr>mem := (mem h0)(?a := Some b')\<rparr>" and l': "length b' = length b"
      and n': "\<forall>j < size_m v - 1. b' ! j = (if j < i then b ! j else b ! Suc j)"
    by blast
  have b'': "block h' ?a = Some b'"
    unfolding h' by (rule block_after_write[OF b0])
  let ?ys = "take i xs @ drop (Suc i) xs"
  have ly: "length ?ys = size_m v - 1" using lx i by simp
  have ny: "?ys ! j = (if j < i then xs ! j else xs ! Suc j)" if "j < size_m v - 1" for j
    using that lx i by (simp add: nth_append)
  have "elements h' v' = Some ?ys"
  proof (rule elements_SomeI)
    show "block h' (buffer_m (data_m v')) = Some b'" using b'' v' by simp
    show "length b' = capacity_m (data_m v')" using l' cap v' by simp
    show "size_m v' \<le> length b'" using l' le v' by simp
    show "length ?ys = size_m v'" using ly v' by simp
    show "\<forall>j < size_m v'. b' ! j = Some (?ys ! j)"
      using n' ny live i v' by auto
  qed
  then show ?thesis using pos p v' lx i by (auto simp: Size_def)
qed

end
